theory Spec2Isabelle
  imports Main "HOL-Library.Sublist"
begin

section \<open>The Cairo VS Code extension: locating and launching executables\<close>

text \<open>
  A shallow embedding of \<^verbatim>\<open>vscode-cairo/src/extension.ts\<close>. The extension locates
  the Scarb build tool and the Cairo language server, spawns the server and bridges a
  virtual file system. Whatever the code reads from its surroundings is an explicit
  argument here: the process environment, the file system, the editor's workspace and
  configuration, the platform's \<^verbatim>\<open>path\<close> module, the order in which asynchronous file
  probes complete, and the language server's answers.
\<close>

subsection \<open>The surroundings\<close>

text \<open>
  The file system is a snapshot: what \<^verbatim>\<open>stat\<close> says of each path, an error code or the
  kind of the entry found there.
\<close>

datatype errno = ENOENT | ENOTDIR | EACCES | ELOOP | ENAMETOOLONG | EIO

datatype file_kind = RegularFile | Directory | OtherKind

type_synonym filesystem = "string \<Rightarrow> errno + file_kind"

datatype js_error = TypeError | ErrnoException errno | ResponseError string

text \<open>Every access to the file system the code makes is logged, in order.\<close>

datatype probe = Stat string | ExistsSync string

text \<open>
  \<^verbatim>\<open>path.delimiter\<close> and \<^verbatim>\<open>path.join\<close> belong to the platform (Node's \<^verbatim>\<open>path\<close>
  module, POSIX or Windows flavour); they are parameters of the model.
\<close>

record platform =
  path_delimiter :: char
  path_join :: "string \<Rightarrow> string \<Rightarrow> string"

text \<open>\<^verbatim>\<open>process.env\<close>: a variable is a string or undefined.\<close>

record process_env =
  env_PATH :: "string option"
  env_PATHEXT :: "string option"

text \<open>
  What the code reads from the editor: \<^verbatim>\<open>context.extensionPath\<close>,
  \<^verbatim>\<open>vscode.workspace.workspaceFolders\<close> (undefined, or the list of the folders'
  \<^verbatim>\<open>uri.path\<close>) and \<^verbatim>\<open>config.get<string>(key)\<close>.
\<close>

record vscode_env =
  extensionPath :: string
  workspaceFolders :: "string list option"
  configuration :: "string \<Rightarrow> string option"

subsection \<open>Promises\<close>

datatype ('e, 'a) promise = Pending | Fulfilled 'a | Rejected 'e

text \<open>\<^verbatim>\<open>p.then(onFulfilled, onRejected)\<close> with handlers that do not throw.\<close>

definition promise_then ::
  "('e, 'a) promise \<Rightarrow> ('a \<Rightarrow> 'b) \<Rightarrow> ('e \<Rightarrow> 'b) \<Rightarrow> ('e, 'b) promise" where
  "promise_then p onFulfilled onRejected =
     (case p of
        Pending \<Rightarrow> Pending
      | Fulfilled v \<Rightarrow> Fulfilled (onFulfilled v)
      | Rejected e \<Rightarrow> Fulfilled (onRejected e))"

text \<open>
  \<^verbatim>\<open>Promise.all\<close>: the input promises settle one by one, in the order the schedule
  \<open>order\<close> lists their indices. A fulfilment stores the value in the slot of its index;
  the first rejection rejects the whole; when the schedule is over and every slot is
  filled the result is the list of the slots, otherwise nothing has been delivered.
\<close>

fun promise_all_run ::
  "('e, 'a) promise list \<Rightarrow> nat list \<Rightarrow> 'a option list \<Rightarrow> ('e, 'a list) promise" where
  "promise_all_run ps [] slots =
     (case those slots of Some vs \<Rightarrow> Fulfilled vs | None \<Rightarrow> Pending)"
| "promise_all_run ps (i # order) slots =
     (if i < length ps then
        (case ps ! i of
           Pending \<Rightarrow> promise_all_run ps order slots
         | Fulfilled v \<Rightarrow> promise_all_run ps order (slots[i := Some v])
         | Rejected e \<Rightarrow> Rejected e)
      else promise_all_run ps order slots)"

definition promise_all :: "('e, 'a) promise list \<Rightarrow> nat list \<Rightarrow> ('e, 'a list) promise" where
  "promise_all ps order = promise_all_run ps order (replicate (length ps) None)"

subsection \<open>The file system calls\<close>

definition existsSync :: "filesystem \<Rightarrow> string \<Rightarrow> bool" where
  "existsSync fs p = (case fs p of Inl e \<Rightarrow> False | Inr k \<Rightarrow> True)"

definition stat :: "filesystem \<Rightarrow> string \<Rightarrow> (js_error, file_kind) promise" where
  "stat fs p = (case fs p of Inl e \<Rightarrow> Rejected (ErrnoException e) | Inr k \<Rightarrow> Fulfilled k)"

definition isFile :: "file_kind \<Rightarrow> bool" where
  "isFile k = (k = RegularFile)"

subsection \<open>Strings as JavaScript handles them\<close>

text \<open>\<^verbatim>\<open>v || ""\<close> on a string or undefined.\<close>

definition or_empty :: "string option \<Rightarrow> string" where
  "or_empty v = (case v of None \<Rightarrow> [] | Some s \<Rightarrow> if s = [] then [] else s)"

text \<open>\<^verbatim>\<open>s.replace(/["]+/g, "")\<close>: every run of double quotes goes.\<close>

definition remove_quotes :: "string \<Rightarrow> string" where
  "remove_quotes s = filter (\<lambda>c. c \<noteq> CHR 0x22) s"

text \<open>\<^verbatim>\<open>s.split(d)\<close> for a separator of one character: the empty string gives one empty piece.\<close>

fun split_on :: "char \<Rightarrow> string \<Rightarrow> string list" where
  "split_on d [] = [[]]"
| "split_on d (c # cs) =
     (if c = d then [] # split_on d cs
      else (case split_on d cs of
              [] \<Rightarrow> [[c]]
            | w # ws \<Rightarrow> (c # w) # ws))"

text \<open>\<^verbatim>\<open>!!v\<close> on a string or undefined: undefined and the empty string are falsy.\<close>

definition truthy :: "string option \<Rightarrow> bool" where
  "truthy v = (case v of None \<Rightarrow> False | Some s \<Rightarrow> s \<noteq> [])"

text \<open>\<^verbatim>\<open>values.find((value) => !!value)\<close>: the first truthy element, or undefined.\<close>

definition find_truthy :: "string option list \<Rightarrow> string option" where
  "find_truthy values = (case find truthy values of None \<Rightarrow> None | Some v \<Rightarrow> v)"

text \<open>
  The replacement text of \<^verbatim>\<open>String.prototype.replace\<close> is a template: \<^verbatim>\<open>$$\<close> stands for
  a dollar sign, \<^verbatim>\<open>$&\<close> for the matched text, \<^verbatim>\<open>$`\<close> for the text before the match and
  \<^verbatim>\<open>$'\<close> for the text after it. The pattern here has no capture group, so \<^verbatim>\<open>$1\<close> and
  \<^verbatim>\<open>$<name>\<close> stand for themselves.
\<close>

fun getSubstitution :: "string \<Rightarrow> string \<Rightarrow> string \<Rightarrow> string \<Rightarrow> string" where
  "getSubstitution matched preceding following (c # d # r) =
     (if c = CHR ''$'' then
        (if d = CHR ''$'' then CHR ''$'' # getSubstitution matched preceding following r
         else if d = CHR ''&'' then matched @ getSubstitution matched preceding following r
         else if d = CHR 0x60 then preceding @ getSubstitution matched preceding following r
         else if d = CHR 0x27 then following @ getSubstitution matched preceding following r
         else c # getSubstitution matched preceding following (d # r))
      else c # getSubstitution matched preceding following (d # r))"
| "getSubstitution matched preceding following r = r"

text \<open>
  \<^verbatim>\<open>s.replace(/pat/g, repl)\<close> for a pattern that is a literal text: scan from the left,
  replace each match and go on after it. \<open>preceding\<close> is the text already scanned.
\<close>

fun replace_all_from :: "string \<Rightarrow> string \<Rightarrow> string \<Rightarrow> string \<Rightarrow> string" where
  "replace_all_from pat repl preceding [] = []"
| "replace_all_from pat repl preceding (c # cs) =
     (if pat \<noteq> [] \<and> take (length pat) (c # cs) = pat
      then getSubstitution pat preceding (drop (length pat) (c # cs)) repl
           @ replace_all_from pat repl (preceding @ pat) (drop (length pat - 1) cs)
      else c # replace_all_from pat repl (preceding @ [c]) cs)"

definition replace_all :: "string \<Rightarrow> string \<Rightarrow> string \<Rightarrow> string" where
  "replace_all pat repl s = replace_all_from pat repl [] s"

definition workspaceFolder_placeholder :: string where
  "workspaceFolder_placeholder = ''${workspaceFolder}''"

subsection \<open>findExecutableInPath\<close>

definition pathDirs :: "platform \<Rightarrow> process_env \<Rightarrow> string list" where
  "pathDirs pf env =
     filter (\<lambda>d. d \<noteq> [])
       (split_on (path_delimiter pf) (remove_quotes (or_empty (env_PATH env))))"

definition extensions :: "process_env \<Rightarrow> string list" where
  "extensions env = split_on (CHR '';'') (or_empty (env_PATHEXT env))"

definition candidates :: "platform \<Rightarrow> process_env \<Rightarrow> string \<Rightarrow> string list" where
  "candidates pf env name =
     concat (map (\<lambda>d. map (\<lambda>ext. path_join pf d (name @ ext)) (extensions env))
       (pathDirs pf env))"

definition fileExists :: "filesystem \<Rightarrow> string \<Rightarrow> (js_error, string option) promise" where
  "fileExists fs p =
     promise_then (stat fs p) (\<lambda>st. if isFile st then Some p else None) (\<lambda>e. None)"

text \<open>
  The result of the async function, with the probes it has issued. \<open>order\<close> is the order
  in which the \<^verbatim>\<open>stat\<close> calls complete.
\<close>

definition findExecutableInPath ::
  "platform \<Rightarrow> process_env \<Rightarrow> filesystem \<Rightarrow> nat list \<Rightarrow> string
     \<Rightarrow> (js_error, string option) promise \<times> probe list" where
  "findExecutableInPath pf env fs order name =
     (let cands = candidates pf env name in
      ((case promise_all (map (fileExists fs) cands) order of
          Pending \<Rightarrow> Pending
        | Fulfilled values \<Rightarrow> Fulfilled (find_truthy values)
        | Rejected e \<Rightarrow> Fulfilled None),
       map Stat cands))"

subsection \<open>findExecutableByConfig\<close>

text \<open>
  \<^verbatim>\<open>workspaceFolders[0]\<close> of an empty list is undefined, and reading \<^verbatim>\<open>.uri\<close> of it
  throws a TypeError; \<open>rootPath\<close> is the variable of that name when the configuration
  is read. An override that is the empty string is falsy and counts as not set. The
  fallback \<open>defaultCallback\<close> returns its result and the probes it made.
\<close>

definition rootPath :: "vscode_env \<Rightarrow> js_error + string" where
  "rootPath ctx =
     (case workspaceFolders ctx of
        None \<Rightarrow> Inr (extensionPath ctx)
      | Some [] \<Rightarrow> Inl TypeError
      | Some (folder # others) \<Rightarrow> Inr (if folder \<noteq> [] then folder else extensionPath ctx))"

definition findExecutableByConfig ::
  "filesystem \<Rightarrow> vscode_env \<Rightarrow> string \<Rightarrow> (string \<Rightarrow> string option \<times> probe list)
     \<Rightarrow> (js_error + string option) \<times> probe list" where
  "findExecutableByConfig fs ctx configurationKey defaultCallback =
     (case rootPath ctx of
        Inl e \<Rightarrow> (Inl e, [])
      | Inr root \<Rightarrow>
          (case configuration ctx configurationKey of
             Some configPath \<Rightarrow>
               if configPath \<noteq> [] then
                 (let serverPath = replace_all workspaceFolder_placeholder root configPath in
                  if \<not> existsSync fs serverPath then (Inr None, [ExistsSync serverPath])
                  else (Inr (Some serverPath), [ExistsSync serverPath]))
               else (case defaultCallback root of (r, probes) \<Rightarrow> (Inr r, probes))
           | None \<Rightarrow> (case defaultCallback root of (r, probes) \<Rightarrow> (Inr r, probes))))"

subsection \<open>The development build of the language server\<close>

text \<open>The depth is a counter that the only caller starts at 10.\<close>

fun findDevLanguageServerAt :: "filesystem \<Rightarrow> string \<Rightarrow> nat \<Rightarrow> string option \<times> probe list" where
  "findDevLanguageServerAt fs path 0 = (None, [])"
| "findDevLanguageServerAt fs path (Suc depth) =
     (let candidate = path @ ''/target/release/cairo-language-server'' in
      if existsSync fs candidate then (Some candidate, [ExistsSync candidate])
      else
        (let candidate' = path @ ''/target/debug/cairo-language-server'' in
         if existsSync fs candidate' then
           (Some candidate', [ExistsSync candidate, ExistsSync candidate'])
         else
           (case findDevLanguageServerAt fs (path @ ''/..'') depth of
              (r, probes) \<Rightarrow> (r, ExistsSync candidate # ExistsSync candidate' # probes))))"

definition findLanguageServerExecutable ::
  "filesystem \<Rightarrow> vscode_env \<Rightarrow> (js_error + string option) \<times> probe list" where
  "findLanguageServerExecutable fs ctx =
     findExecutableByConfig fs ctx ''cairo1.languageServerPath''
       (\<lambda>rootPath. findDevLanguageServerAt fs rootPath 10)"

subsection \<open>findScarbExecutable\<close>

text \<open>
  The search of PATH is awaited first; the fallback handed to
  \<open>findExecutableByConfig\<close> only returns what that search has found.
\<close>

definition findScarbExecutable ::
  "platform \<Rightarrow> process_env \<Rightarrow> filesystem \<Rightarrow> nat list \<Rightarrow> vscode_env
     \<Rightarrow> (js_error, string option) promise \<times> probe list" where
  "findScarbExecutable pf env fs order ctx =
     (case findExecutableInPath pf env fs order ''scarb'' of
        (Pending, probes) \<Rightarrow> (Pending, probes)
      | (Rejected e, probes) \<Rightarrow> (Rejected e, probes)
      | (Fulfilled scarbFromPath, probes) \<Rightarrow>
          (case findExecutableByConfig fs ctx ''cairo1.scarbPath''
                  (\<lambda>rootPath. (scarbFromPath, [])) of
             (Inl e, probes') \<Rightarrow> (Rejected e, probes @ probes')
           | (Inr r, probes') \<Rightarrow> (Fulfilled r, probes @ probes')))"

subsection \<open>setupLanguageServer: the server options\<close>

text \<open>
  What the bootstrap changes: the lines of the output channel and the executables
  spawned as child processes.
\<close>

record extension_state =
  outputChannel :: "string list"
  spawned :: "string list"

definition not_found_message :: string where
  "not_found_message =
     ''Cairo language server was not found. Make sure cairo-lang-server is '' @
     ''installed and that the configuration 'cairo1.languageServerPath' is correct.''"

text \<open>
  The executor of the promise that \<open>serverOptions\<close> returns. When nothing is found it
  returns without resolving: the promise stays pending. The value of the promise is the
  path of the child process spawned.
\<close>

definition serverOptions ::
  "filesystem \<Rightarrow> vscode_env \<Rightarrow> extension_state \<Rightarrow> (js_error, string) promise \<times> extension_state" where
  "serverOptions fs ctx st =
     (case fst (findLanguageServerExecutable fs ctx) of
        Inl e \<Rightarrow> (Rejected e, st)
      | Inr executable \<Rightarrow>
          (case executable of
             None \<Rightarrow> (Pending, st\<lparr>outputChannel := outputChannel st @ [not_found_message]\<rparr>)
           | Some exe \<Rightarrow>
               if exe = [] then
                 (Pending, st\<lparr>outputChannel := outputChannel st @ [not_found_message]\<rparr>)
               else
                 (Fulfilled exe,
                  st\<lparr>outputChannel :=
                       outputChannel st @ [''Cairo language server running from: '' @ exe],
                     spawned := spawned st @ [exe]\<rparr>)))"

subsection \<open>The virtual file system provider\<close>

text \<open>
  The client session: the requests sent to the server so far, and the URIs for which the
  provider's change event has fired. The server answers a request with an error or with
  the content; its answer may depend on everything it has been asked before.
\<close>

record client_session =
  requests :: "(string \<times> string) list"
  changeEvents :: "string list"

type_synonym language_server = "(string \<times> string) list \<Rightarrow> string \<Rightarrow> js_error + string"

definition sendRequest ::
  "language_server \<Rightarrow> string \<Rightarrow> string \<Rightarrow> client_session
     \<Rightarrow> (js_error, string) promise \<times> client_session" where
  "sendRequest server method uri cs =
     ((case server (requests cs) uri of Inl e \<Rightarrow> Rejected e | Inr content \<Rightarrow> Fulfilled content),
      cs\<lparr>requests := requests cs @ [(method, uri)]\<rparr>)"

definition provideTextDocumentContent ::
  "language_server \<Rightarrow> string \<Rightarrow> client_session \<Rightarrow> (js_error, string) promise \<times> client_session" where
  "provideTextDocumentContent server uri cs = sendRequest server ''vfs/provide'' uri cs"

text \<open>The handler registered with \<^verbatim>\<open>client.onNotification('vfs/update', ...)\<close>.\<close>

definition onNotification :: "string \<Rightarrow> string \<Rightarrow> client_session \<Rightarrow> client_session" where
  "onNotification method uri cs =
     (if method = ''vfs/update'' then cs\<lparr>changeEvents := changeEvents cs @ [uri]\<rparr> else cs)"

subsection \<open>Auxiliary notions for the statements\<close>

text \<open>\<^verbatim>\<open>pieces.join(sep)\<close>, the inverse of splitting at \<open>sep\<close>.\<close>

fun join_with :: "string \<Rightarrow> string list \<Rightarrow> string" where
  "join_with sep [] = []"
| "join_with sep [w] = w"
| "join_with sep (w # v # ws) = w @ sep @ join_with sep (v # ws)"

text \<open>
  The places where a development build of the language server is looked for, in the
  order the specification lists them: for each of \<open>depth\<close> levels, starting at \<open>root\<close> and
  going up one directory per level, the release build and then the debug build.
\<close>

definition dev_candidates :: "string \<Rightarrow> nat \<Rightarrow> string list" where
  "dev_candidates root depth =
     concat (map (\<lambda>k. [root @ concat (replicate k ''/..'') @ ''/target/release/cairo-language-server'',
                        root @ concat (replicate k ''/..'') @ ''/target/debug/cairo-language-server''])
       [0..<depth])"

text \<open>
  A replacement text that \<^verbatim>\<open>replace\<close> copies as it is: none of the four patterns
  \<^verbatim>\<open>$$\<close>, \<^verbatim>\<open>$&\<close>, \<^verbatim>\<open>$`\<close> and \<^verbatim>\<open>$'\<close> occurs in it. A dollar sign followed by anything
  else, or at the end, is allowed.
\<close>

definition dollar_pattern_free :: "string \<Rightarrow> bool" where
  "dollar_pattern_free repl =
     (\<not> sublist ''$$'' repl \<and> \<not> sublist ''$&'' repl
      \<and> \<not> sublist [CHR ''$'', CHR 0x60] repl \<and> \<not> sublist [CHR ''$'', CHR 0x27] repl)"

text \<open>
  A platform for the examples: the delimiter of POSIX, and a join that puts a slash
  between directory and file name. Node's \<^verbatim>\<open>path.join\<close> does the same for a directory
  that is normalised and does not end in a slash; no example uses another.
\<close>

definition posix_platform :: platform where
  "posix_platform = \<lparr>path_delimiter = CHR '':'', path_join = (\<lambda>dir file. dir @ ''/'' @ file)\<rparr>"

text \<open>A file system for the examples: regular files and directories by name, nothing else.\<close>

definition fs_with :: "string list \<Rightarrow> string list \<Rightarrow> filesystem" where
  "fs_with files dirs p =
     (if p \<in> set files then Inr RegularFile
      else if p \<in> set dirs then Inr Directory
      else Inl ENOENT)"

section \<open>Properties\<close>

subsection \<open>Splitting, quotes and promises\<close>

lemma split_on_not_Nil: "split_on d s \<noteq> []"
  by (induction s) (auto split: list.splits)

lemma join_with_split_on: "join_with [d] (split_on d s) = s"
proof (induction s)
  case Nil
  then show ?case by simp
next
  case (Cons c cs)
  obtain v vs where vs: "split_on d cs = v # vs"
    using split_on_not_Nil [of d cs] by (cases "split_on d cs") auto
  show ?case
  proof (cases "c = d")
    case True
    with Cons vs show ?thesis by simp
  next
    case False
    with Cons vs show ?thesis by (cases vs) simp_all
  qed
qed

lemma split_on_free: "d \<notin> set w \<Longrightarrow> split_on d w = [w]"
  by (induction w) auto

lemma split_on_append: "d \<notin> set w \<Longrightarrow> split_on d (w @ d # rest) = w # split_on d rest"
  by (induction w) auto

lemma split_on_join_with:
  "ws \<noteq> [] \<Longrightarrow> \<forall>w\<in>set ws. d \<notin> set w \<Longrightarrow> split_on d (join_with [d] ws) = ws"
proof (induction "[d]" ws rule: join_with.induct)
  case 1
  then show ?case by simp
next
  case (2 w)
  then show ?case by (simp add: split_on_free)
next
  case (3 w v ws)
  then show ?case by (simp add: split_on_append)
qed

lemma those_map_Some: "those (map Some vs) = Some vs"
  by (induction vs) simp_all

lemma promise_all_run_fulfilled:
  "length slots = length vs \<Longrightarrow>
   \<forall>i<length vs. slots ! i = None \<or> slots ! i = Some (vs ! i) \<Longrightarrow>
   \<forall>i<length vs. slots ! i = None \<longrightarrow> i \<in> set order \<Longrightarrow>
   promise_all_run (map Fulfilled vs) order slots = Fulfilled vs"
proof (induction order arbitrary: slots)
  case Nil
  then have "\<forall>i<length vs. slots ! i = Some (vs ! i)" by fastforce
  with Nil.prems(1) have "slots = map Some vs"
    by (simp add: list_eq_iff_nth_eq)
  then show ?case by (simp add: those_map_Some)
next
  case (Cons k order)
  show ?case
  proof (cases "k < length vs")
    case True
    have len: "length (slots[k := Some (vs ! k)]) = length vs"
      using Cons.prems(1) by simp
    have inv: "\<forall>i<length vs. slots[k := Some (vs ! k)] ! i = None
              \<or> slots[k := Some (vs ! k)] ! i = Some (vs ! i)"
      using Cons.prems(1,2) True by (auto simp: nth_list_update)
    have todo: "\<forall>i<length vs. slots[k := Some (vs ! k)] ! i = None \<longrightarrow> i \<in> set order"
      using Cons.prems(1,3) True by (auto simp: nth_list_update split: if_splits)
    from Cons.IH [OF len inv todo] True show ?thesis by simp
  next
    case False
    have todo: "\<forall>i<length vs. slots ! i = None \<longrightarrow> i \<in> set order"
      using Cons.prems(3) False by auto
    from Cons.IH [OF Cons.prems(1) Cons.prems(2) todo] False show ?thesis by simp
  qed
qed

lemma promise_all_fulfilled:
  "{..<length vs} \<subseteq> set order \<Longrightarrow> promise_all (map Fulfilled vs) order = Fulfilled vs"
  unfolding promise_all_def
  by (rule promise_all_run_fulfilled) auto

lemma promise_all_run_not_rejected:
  "promise_all_run (map Fulfilled vs) order slots \<noteq> Rejected e"
  by (induction order arbitrary: slots) (auto split: option.splits)

lemma promise_all_nil: "promise_all [] order = Fulfilled []"
  unfolding promise_all_def by (induction order) simp_all

lemma fileExists_fulfilled: "fileExists fs p = Fulfilled (if fs p = Inr RegularFile then Some p else None)"
  by (auto simp: fileExists_def promise_then_def stat_def isFile_def split: sum.splits)

lemma find_truthy_probe:
  "find_truthy (map (\<lambda>p. if fs p = Inr RegularFile then Some p else None) cands) =
     find (\<lambda>p. fs p = Inr RegularFile \<and> p \<noteq> []) cands"
  unfolding find_truthy_def
  by (induction cands) (auto simp: truthy_def)


lemma split_on_pieces: "w \<in> set (split_on d s) \<Longrightarrow> set w \<subseteq> set s \<and> d \<notin> set w"
proof (induction s arbitrary: w)
  case Nil
  then show ?case by simp
next
  case (Cons c cs)
  show ?case
  proof (cases "c = d")
    case True
    with Cons show ?thesis by auto
  next
    case False
    obtain v vs where vs: "split_on d cs = v # vs"
      using split_on_not_Nil [of d cs] by (cases "split_on d cs") auto
    with False Cons.prems have "w = c # v \<or> w \<in> set vs" by auto
    then show ?thesis
    proof
      assume "w = c # v"
      moreover have "set v \<subseteq> set cs \<and> d \<notin> set v" using Cons.IH [of v] vs by simp
      ultimately show ?thesis using False by auto
    next
      assume "w \<in> set vs"
      then have "set w \<subseteq> set cs \<and> d \<notin> set w" using Cons.IH [of w] vs by simp
      then show ?thesis by auto
    qed
  qed
qed

lemma remove_quotes_no_quote: "CHR 0x22 \<notin> set (remove_quotes s)"
  by (simp add: remove_quotes_def)

lemma remove_quotes_idem: "remove_quotes (remove_quotes s) = remove_quotes s"
  by (simp add: remove_quotes_def)

lemma or_empty_eq: "or_empty v = (case v of None \<Rightarrow> [] | Some s \<Rightarrow> s)"
  by (simp add: or_empty_def split: option.splits)

lemma candidates_product:
  "candidates pf env name =
     map (\<lambda>(d, ext). path_join pf d (name @ ext)) (List.product (pathDirs pf env) (extensions env))"
  unfolding candidates_def
  by (induction "pathDirs pf env") (simp_all add: List.product_concat_map map_concat comp_def)

lemma length_candidates:
  "length (candidates pf env name) = length (pathDirs pf env) * length (extensions env)"
  by (simp add: candidates_product)

lemma pathDirs_member:
  "d \<in> set (pathDirs pf env) \<Longrightarrow> d \<noteq> [] \<and> CHR 0x22 \<notin> set d"
  unfolding pathDirs_def
  using split_on_pieces [of d "path_delimiter pf" "remove_quotes (or_empty (env_PATH env))"]
    remove_quotes_no_quote [of "or_empty (env_PATH env)"]
  by auto

lemma promise_all_run_value:
  "length slots = length vs \<Longrightarrow>
   \<forall>i<length vs. slots ! i = None \<or> slots ! i = Some (vs ! i) \<Longrightarrow>
   promise_all_run (map Fulfilled vs) order slots = Fulfilled ws \<Longrightarrow> ws = vs"
proof (induction order arbitrary: slots)
  case Nil
  from Nil.prems(3) have "those slots = Some ws" by (simp split: option.splits)
  then have "slots = map Some ws" by (induction slots arbitrary: ws) (auto split: option.splits)
  with Nil.prems(1,2) show ?case by (auto simp: list_eq_iff_nth_eq)
next
  case (Cons k order)
  show ?case
  proof (cases "k < length vs")
    case True
    have len: "length (slots[k := Some (vs ! k)]) = length vs"
      using Cons.prems(1) by simp
    have inv: "\<forall>i<length vs. slots[k := Some (vs ! k)] ! i = None
              \<or> slots[k := Some (vs ! k)] ! i = Some (vs ! i)"
      using Cons.prems(1,2) True by (auto simp: nth_list_update)
    from Cons.IH [OF len inv] Cons.prems(3) True show ?thesis by simp
  next
    case False
    from Cons.IH [OF Cons.prems(1,2)] Cons.prems(3) False show ?thesis by simp
  qed
qed

lemma promise_all_value:
  "promise_all (map Fulfilled vs) order = Fulfilled ws \<Longrightarrow> ws = vs"
  unfolding promise_all_def
  by (rule promise_all_run_value [of "replicate (length vs) None" vs order ws]) auto

lemma map_fileExists:
  "map (fileExists fs) cands =
     map Fulfilled (map (\<lambda>p. if fs p = Inr RegularFile then Some p else None) cands)"
  by (simp add: fileExists_fulfilled)

lemma findExecutableInPath_complete:
  assumes "{..<length (candidates pf env name)} \<subseteq> set order"
  shows "fst (findExecutableInPath pf env fs order name) =
           Fulfilled (find (\<lambda>p. fs p = Inr RegularFile \<and> p \<noteq> []) (candidates pf env name))"
proof -
  have "promise_all (map (fileExists fs) (candidates pf env name)) order =
          Fulfilled (map (\<lambda>p. if fs p = Inr RegularFile then Some p else None) (candidates pf env name))"
    unfolding map_fileExists using assms by (intro promise_all_fulfilled) simp
  then show ?thesis
    by (simp add: findExecutableInPath_def Let_def find_truthy_probe)
qed

lemma findExecutableInPath_cases:
  "fst (findExecutableInPath pf env fs order name) = Pending \<or>
   fst (findExecutableInPath pf env fs order name) =
     Fulfilled (find (\<lambda>p. fs p = Inr RegularFile \<and> p \<noteq> []) (candidates pf env name))"
proof (cases "promise_all (map (fileExists fs) (candidates pf env name)) order")
  case Pending
  then show ?thesis by (simp add: findExecutableInPath_def Let_def)
next
  case (Fulfilled ws)
  then have "ws = map (\<lambda>p. if fs p = Inr RegularFile then Some p else None) (candidates pf env name)"
    unfolding map_fileExists by (rule promise_all_value)
  with Fulfilled show ?thesis
    by (simp add: findExecutableInPath_def Let_def find_truthy_probe)
next
  case (Rejected e)
  from this [unfolded map_fileExists promise_all_def] show ?thesis
    by (rule notE [OF promise_all_run_not_rejected])
qed

subsection \<open>The search of PATH\<close>

text \<open>
  C10. Before the candidates are built, every double quote is removed from the value of
  PATH and the empty pieces of the split are dropped: every directory searched is a
  non-empty, quote-free piece of the unquoted value, every candidate is built from such
  a directory, there are as many candidates as pairs of a directory and an extension,
  and the directories of a value are those of the same value with its quotes removed.
\<close>

theorem pathDirs_drop_quotes_and_empty_segments:
  "(\<forall>d\<in>set (pathDirs pf env).
      d \<noteq> [] \<and> CHR 0x22 \<notin> set d \<and>
      d \<in> set (split_on (path_delimiter pf) (remove_quotes (or_empty (env_PATH env)))))
   \<and> (\<forall>c\<in>set (candidates pf env name).
         \<exists>d ext. d \<noteq> [] \<and> CHR 0x22 \<notin> set d \<and> c = path_join pf d (name @ ext))
   \<and> length (candidates pf env name) = length (pathDirs pf env) * length (extensions env)
   \<and> pathDirs pf (env\<lparr>env_PATH := Some (remove_quotes (or_empty (env_PATH env)))\<rparr>) = pathDirs pf env"
proof (intro conjI ballI)
  fix d assume d: "d \<in> set (pathDirs pf env)"
  from pathDirs_member [OF d] show "d \<noteq> []" and "CHR 0x22 \<notin> set d" by simp_all
  from d show "d \<in> set (split_on (path_delimiter pf) (remove_quotes (or_empty (env_PATH env))))"
    by (simp add: pathDirs_def)
next
  fix c assume "c \<in> set (candidates pf env name)"
  then obtain d ext where "d \<in> set (pathDirs pf env)" and c: "c = path_join pf d (name @ ext)"
    by (auto simp: candidates_def)
  with pathDirs_member [of d pf env]
  show "\<exists>d ext. d \<noteq> [] \<and> CHR 0x22 \<notin> set d \<and> c = path_join pf d (name @ ext)"
    by blast
next
  show "length (candidates pf env name) = length (pathDirs pf env) * length (extensions env)"
    by (rule length_candidates)
next
  show "pathDirs pf (env\<lparr>env_PATH := Some (remove_quotes (or_empty (env_PATH env)))\<rparr>) = pathDirs pf env"
    by (simp add: pathDirs_def or_empty_eq remove_quotes_idem)
qed

theorem pathDirs_drop_quotes_and_empty_segments_witness:
  "pathDirs posix_platform \<lparr>env_PATH = Some [CHR 0x22, CHR ''/'', CHR ''a'', CHR 0x22, CHR '':'', CHR '':'', CHR ''/'', CHR ''b'', CHR '':'', CHR 0x22, CHR 0x22], env_PATHEXT = None\<rparr>
     = [''/a'', ''/b'']
   \<and> ''/a'' \<noteq> [] \<and> CHR 0x22 \<notin> set ''/a''
   \<and> candidates posix_platform \<lparr>env_PATH = Some [CHR 0x22, CHR ''/'', CHR ''a'', CHR 0x22, CHR '':'', CHR '':'', CHR ''/'', CHR ''b'', CHR '':'', CHR 0x22, CHR 0x22], env_PATHEXT = None\<rparr> ''scarb''
     = [''/a/scarb'', ''/b/scarb'']"
proof -
  let ?env = "\<lparr>env_PATH = Some [CHR 0x22, CHR ''/'', CHR ''a'', CHR 0x22, CHR '':'', CHR '':'', CHR ''/'', CHR ''b'', CHR '':'', CHR 0x22, CHR 0x22], env_PATHEXT = None\<rparr>"
  have dirs: "pathDirs posix_platform ?env = [''/a'', ''/b'']"
    by (simp add: pathDirs_def posix_platform_def or_empty_def remove_quotes_def)
  have cands: "candidates posix_platform ?env ''scarb'' = [''/a/scarb'', ''/b/scarb'']"
    unfolding candidates_def dirs by (simp add: extensions_def or_empty_def posix_platform_def)
  from pathDirs_drop_quotes_and_empty_segments [of posix_platform ?env "''scarb''"]
  have "\<forall>d\<in>set (pathDirs posix_platform ?env). d \<noteq> [] \<and> CHR 0x22 \<notin> set d"
    by blast
  with dirs have "''/a'' \<noteq> [] \<and> CHR 0x22 \<notin> set ''/a''" by simp
  with dirs cands show ?thesis by simp
qed

text \<open>
  C2, as amended. The candidates are, in this order, the pairs of a directory and an
  extension, directories first: the directories are the non-empty pieces of the unquoted
  PATH, the extensions are exactly the pieces of PATHEXT between semicolons (an unset or
  empty PATHEXT has the empty extension as its only piece), and the candidate of a pair
  is the platform's join of the directory with name and extension. The empty extension
  is tried only where PATHEXT has an empty piece.
\<close>

theorem candidates_are_directory_extension_pairs:
  "candidates pf env name =
     map (\<lambda>(d, ext). path_join pf d (name @ ext))
       (List.product (pathDirs pf env) (extensions env))
   \<and> pathDirs pf env =
       filter (\<lambda>d. d \<noteq> [])
         (split_on (path_delimiter pf) (remove_quotes (case env_PATH env of None \<Rightarrow> [] | Some s \<Rightarrow> s)))
   \<and> extensions env \<noteq> []
   \<and> join_with '';'' (extensions env) = (case env_PATHEXT env of None \<Rightarrow> [] | Some s \<Rightarrow> s)
   \<and> (\<forall>ext\<in>set (extensions env). CHR '';'' \<notin> set ext)
   \<and> (\<forall>exts. exts \<noteq> [] \<and> (\<forall>ext\<in>set exts. CHR '';'' \<notin> set ext) \<longrightarrow>
         extensions (env\<lparr>env_PATHEXT := Some (join_with '';'' exts)\<rparr>) = exts)"
proof (intro conjI allI impI ballI)
  show "candidates pf env name =
     map (\<lambda>(d, ext). path_join pf d (name @ ext))
       (List.product (pathDirs pf env) (extensions env))"
    by (rule candidates_product)
  show "pathDirs pf env =
       filter (\<lambda>d. d \<noteq> [])
         (split_on (path_delimiter pf) (remove_quotes (case env_PATH env of None \<Rightarrow> [] | Some s \<Rightarrow> s)))"
    by (simp add: pathDirs_def or_empty_eq)
  show "extensions env \<noteq> []"
    by (simp add: extensions_def split_on_not_Nil)
  show "join_with '';'' (extensions env) = (case env_PATHEXT env of None \<Rightarrow> [] | Some s \<Rightarrow> s)"
    by (simp add: extensions_def join_with_split_on or_empty_eq)
next
  fix ext assume "ext \<in> set (extensions env)"
  then show "CHR '';'' \<notin> set ext"
    using split_on_pieces [of ext "CHR '';''"] by (simp add: extensions_def)
next
  fix exts :: "string list"
  assume "exts \<noteq> [] \<and> (\<forall>ext\<in>set exts. CHR '';'' \<notin> set ext)"
  then show "extensions (env\<lparr>env_PATHEXT := Some (join_with '';'' exts)\<rparr>) = exts"
    by (simp add: extensions_def or_empty_eq split_on_join_with)
qed

theorem candidates_are_directory_extension_pairs_witness:
  "extensions \<lparr>env_PATH = Some ''/bin'', env_PATHEXT = Some ''.EXE''\<rparr> = [''.EXE'']
   \<and> candidates posix_platform \<lparr>env_PATH = Some ''/bin'', env_PATHEXT = Some ''.EXE''\<rparr> ''scarb''
       = [''/bin/scarb.EXE'']"
proof -
  let ?env = "\<lparr>env_PATH = Some ''/bin'', env_PATHEXT = Some ''.EXE''\<rparr>"
  note inst = candidates_are_directory_extension_pairs [of posix_platform ?env "''scarb''"]
  have "[''.EXE''] \<noteq> [] \<and> (\<forall>ext\<in>set [''.EXE'']. CHR '';'' \<notin> set ext)" by simp
  with inst have "extensions (?env\<lparr>env_PATHEXT := Some (join_with '';'' [''.EXE''])\<rparr>) = [''.EXE'']"
    by blast
  then have exts: "extensions ?env = [''.EXE'']" by simp
  have dirs: "pathDirs posix_platform ?env = [''/bin'']"
    by (simp add: pathDirs_def posix_platform_def or_empty_def remove_quotes_def)
  from inst have "candidates posix_platform ?env ''scarb'' =
     map (\<lambda>(d, ext). path_join posix_platform d (''scarb'' @ ext))
       (List.product (pathDirs posix_platform ?env) (extensions ?env))"
    by blast
  then have "candidates posix_platform ?env ''scarb'' = [''/bin/scarb.EXE'']"
    unfolding dirs exts by (simp add: posix_platform_def)
  with exts show ?thesis by simp
qed

theorem bare_name_no_candidate_counterexample:
  "path_join posix_platform ''/bin'' (''scarb'' @ '''')
     \<notin> set (candidates posix_platform \<lparr>env_PATH = Some ''/bin'', env_PATHEXT = Some ''.EXE''\<rparr> ''scarb'')"
  by (simp add: candidates_def pathDirs_def extensions_def posix_platform_def or_empty_def
      remove_quotes_def)

text \<open>
  C4. Let some candidate be a regular file, and let the empty path be no regular file.
  Whatever the order in which the probes complete, once all have completed the search
  returns the first candidate, in the order of the list, that is a regular file; and
  the list runs through the extensions for the first directory, then for the second,
  and so on.
\<close>

theorem findExecutableInPath_first_match_in_candidate_order:
  assumes "{..<length (candidates pf env name)} \<subseteq> set order"
    and "{..<length (candidates pf env name)} \<subseteq> set order'"
    and "\<exists>c\<in>set (candidates pf env name). fs c = Inr RegularFile"
    and "fs [] \<noteq> Inr RegularFile"
  shows "(\<exists>i<length (candidates pf env name).
            fst (findExecutableInPath pf env fs order name)
              = Fulfilled (Some (candidates pf env name ! i))
            \<and> fs (candidates pf env name ! i) = Inr RegularFile
            \<and> (\<forall>j<i. fs (candidates pf env name ! j) \<noteq> Inr RegularFile))
         \<and> fst (findExecutableInPath pf env fs order' name)
             = fst (findExecutableInPath pf env fs order name)
         \<and> (\<forall>a<length (pathDirs pf env). \<forall>b<length (extensions env).
               candidates pf env name ! (a * length (extensions env) + b)
                 = path_join pf (pathDirs pf env ! a) (name @ extensions env ! b))"
proof (intro conjI allI impI)
  let ?P = "\<lambda>p. fs p = Inr RegularFile \<and> p \<noteq> []"
  let ?cs = "candidates pf env name"
  from assms(3,4) have "\<exists>c\<in>set ?cs. ?P c" by auto
  then obtain c where c: "find ?P ?cs = Some c"
    by (cases "find ?P ?cs") (auto simp: find_None_iff)
  then obtain i where i: "i < length ?cs" "?P (?cs ! i)" "c = ?cs ! i" "\<forall>j<i. \<not> ?P (?cs ! j)"
    unfolding find_Some_iff by blast
  have "\<forall>j<i. fs (?cs ! j) \<noteq> Inr RegularFile"
  proof (intro allI impI)
    fix j assume "j < i"
    with i(4) have "\<not> ?P (?cs ! j)" by simp
    with assms(4) show "fs (?cs ! j) \<noteq> Inr RegularFile" by auto
  qed
  with i c findExecutableInPath_complete [OF assms(1), of fs]
  show "\<exists>i<length ?cs.
            fst (findExecutableInPath pf env fs order name) = Fulfilled (Some (?cs ! i))
            \<and> fs (?cs ! i) = Inr RegularFile
            \<and> (\<forall>j<i. fs (?cs ! j) \<noteq> Inr RegularFile)"
    by auto
next
  show "fst (findExecutableInPath pf env fs order' name)
             = fst (findExecutableInPath pf env fs order name)"
    by (simp add: findExecutableInPath_complete [OF assms(1)]
        findExecutableInPath_complete [OF assms(2)])
next
  fix a b assume a: "a < length (pathDirs pf env)" and b: "b < length (extensions env)"
  let ?m = "length (extensions env)"
  have "a * ?m + b < Suc a * ?m" using b by simp
  also have "\<dots> \<le> length (pathDirs pf env) * ?m"
    using a by (intro mult_le_mono1) simp
  finally have lt: "a * ?m + b < length (pathDirs pf env) * ?m" .
  from b have "0 < ?m" by arith
  with b have "(a * ?m + b) div ?m = a" and "(a * ?m + b) mod ?m = b"
    by simp_all
  with lt show "candidates pf env name ! (a * ?m + b)
                 = path_join pf (pathDirs pf env ! a) (name @ extensions env ! b)"
    by (simp add: candidates_product product_nth)
qed


theorem findExecutableInPath_first_match_in_candidate_order_witness:
  "{..<length (candidates posix_platform \<lparr>env_PATH = Some ''/a:/b'', env_PATHEXT = Some ''.x;.y''\<rparr> ''scarb'')}
      \<subseteq> set [2, 3, 1, 0]
   \<and> ''/b/scarb.x'' \<in> set (candidates posix_platform \<lparr>env_PATH = Some ''/a:/b'', env_PATHEXT = Some ''.x;.y''\<rparr> ''scarb'')
   \<and> fs_with [''/a/scarb.y'', ''/b/scarb.x''] [] ''/b/scarb.x'' = Inr RegularFile
   \<and> fs_with [''/a/scarb.y'', ''/b/scarb.x''] [] [] \<noteq> Inr RegularFile
   \<and> fst (findExecutableInPath posix_platform \<lparr>env_PATH = Some ''/a:/b'', env_PATHEXT = Some ''.x;.y''\<rparr>
          (fs_with [''/a/scarb.y'', ''/b/scarb.x''] []) [2, 3, 1, 0] ''scarb'')
       = Fulfilled (Some ''/a/scarb.y'')"
proof -
  let ?env = "\<lparr>env_PATH = Some ''/a:/b'', env_PATHEXT = Some ''.x;.y''\<rparr>"
  let ?fs = "fs_with [''/a/scarb.y'', ''/b/scarb.x''] []"
  let ?cs = "candidates posix_platform ?env ''scarb''"
  have cands: "?cs = [''/a/scarb.x'', ''/a/scarb.y'', ''/b/scarb.x'', ''/b/scarb.y'']"
    by (simp add: candidates_def pathDirs_def extensions_def posix_platform_def or_empty_def
        remove_quotes_def)
  have order: "{..<length ?cs} \<subseteq> set [2, 3, 1, 0]"
    unfolding cands by auto
  have order': "{..<length ?cs} \<subseteq> set [0, 1, 2, 3]"
    unfolding cands by auto
  have some: "\<exists>c\<in>set ?cs. ?fs c = Inr RegularFile"
    unfolding cands by (simp add: fs_with_def)
  have empty: "?fs [] \<noteq> Inr RegularFile"
    by (simp add: fs_with_def)
  from findExecutableInPath_first_match_in_candidate_order [OF order order' some empty]
  obtain i where i: "i < length ?cs"
    and res: "fst (findExecutableInPath posix_platform ?env ?fs [2, 3, 1, 0] ''scarb'')
                = Fulfilled (Some (?cs ! i))"
    and isfile: "?fs (?cs ! i) = Inr RegularFile"
    and first: "\<forall>j<i. ?fs (?cs ! j) \<noteq> Inr RegularFile"
    by blast
  have "\<not> 1 < i"
  proof
    assume "1 < i"
    with first have "?fs (?cs ! 1) \<noteq> Inr RegularFile" by blast
    then show False unfolding cands by (simp add: fs_with_def)
  qed
  moreover have "i \<noteq> 0"
  proof
    assume "i = 0"
    with isfile show False unfolding cands by (simp add: fs_with_def)
  qed
  ultimately have "i = 1" by arith
  with res have "fst (findExecutableInPath posix_platform ?env ?fs [2, 3, 1, 0] ''scarb'')
                = Fulfilled (Some ''/a/scarb.y'')"
    unfolding cands by simp
  moreover have "''/b/scarb.x'' \<in> set ?cs" unfolding cands by simp
  moreover have "?fs ''/b/scarb.x'' = Inr RegularFile" by (simp add: fs_with_def)
  ultimately show ?thesis using order empty by blast
qed

text \<open>
  C7. The search of PATH never raises: whatever the environment, the file system and
  the order of completion, its promise is not rejected, and once every probe has
  completed it is fulfilled. An unset PATH or PATHEXT reads as the empty string; with an
  unset or empty PATH there is no candidate and the result is undefined. A probe that
  fails counts as a file that does not exist: the result is what it would be if every
  failing path were simply missing, and a path is only returned when it is a regular
  file.
\<close>

theorem findExecutableInPath_never_raises:
  "fst (findExecutableInPath pf env fs order name) \<noteq> Rejected e
   \<and> ({..<length (candidates pf env name)} \<subseteq> set order \<longrightarrow>
        (\<exists>r. fst (findExecutableInPath pf env fs order name) = Fulfilled r))
   \<and> pathDirs pf (env\<lparr>env_PATH := None\<rparr>) = pathDirs pf (env\<lparr>env_PATH := Some []\<rparr>)
   \<and> extensions (env\<lparr>env_PATHEXT := None\<rparr>) = extensions (env\<lparr>env_PATHEXT := Some []\<rparr>)
   \<and> (env_PATH env = None \<or> env_PATH env = Some [] \<longrightarrow>
        candidates pf env name = [] \<and>
        findExecutableInPath pf env fs order name = (Fulfilled None, []))
   \<and> (\<forall>c err. fs c = Inl err \<longrightarrow> fileExists fs c = Fulfilled None)
   \<and> findExecutableInPath pf env (\<lambda>p. case fs p of Inl err \<Rightarrow> Inl ENOENT | Inr k \<Rightarrow> Inr k) order name
       = findExecutableInPath pf env fs order name
   \<and> (\<forall>c. fst (findExecutableInPath pf env fs order name) = Fulfilled (Some c) \<longrightarrow>
          fs c = Inr RegularFile)"
proof (intro conjI allI impI)
  show "fst (findExecutableInPath pf env fs order name) \<noteq> Rejected e"
    using findExecutableInPath_cases [of pf env fs order name] by auto
  show "pathDirs pf (env\<lparr>env_PATH := None\<rparr>) = pathDirs pf (env\<lparr>env_PATH := Some []\<rparr>)"
    by (simp add: pathDirs_def or_empty_def)
  show "extensions (env\<lparr>env_PATHEXT := None\<rparr>) = extensions (env\<lparr>env_PATHEXT := Some []\<rparr>)"
    by (simp add: extensions_def or_empty_def)
  show "findExecutableInPath pf env (\<lambda>p. case fs p of Inl err \<Rightarrow> Inl ENOENT | Inr k \<Rightarrow> Inr k) order name
       = findExecutableInPath pf env fs order name"
  proof -
    have "fileExists (\<lambda>p. case fs p of Inl err \<Rightarrow> Inl ENOENT | Inr k \<Rightarrow> Inr k) = fileExists fs"
      by (rule ext) (simp add: fileExists_def promise_then_def stat_def split: sum.splits)
    then show ?thesis by (simp add: findExecutableInPath_def)
  qed
next
  assume "{..<length (candidates pf env name)} \<subseteq> set order"
  from findExecutableInPath_complete [OF this, of fs]
  show "\<exists>r. fst (findExecutableInPath pf env fs order name) = Fulfilled r" by blast
next
  assume "env_PATH env = None \<or> env_PATH env = Some []"
  then have "pathDirs pf env = []" by (auto simp: pathDirs_def or_empty_def remove_quotes_def)
  then show "candidates pf env name = []" by (simp add: candidates_def)
next
  assume "env_PATH env = None \<or> env_PATH env = Some []"
  then have "pathDirs pf env = []" by (auto simp: pathDirs_def or_empty_def remove_quotes_def)
  then have "candidates pf env name = []" by (simp add: candidates_def)
  then show "findExecutableInPath pf env fs order name = (Fulfilled None, [])"
    by (simp add: findExecutableInPath_def promise_all_nil find_truthy_def)
next
  fix c err assume "fs c = Inl err"
  then show "fileExists fs c = Fulfilled None" by (simp add: fileExists_fulfilled)
next
  fix c assume "fst (findExecutableInPath pf env fs order name) = Fulfilled (Some c)"
  with findExecutableInPath_cases [of pf env fs order name]
  have "find (\<lambda>p. fs p = Inr RegularFile \<and> p \<noteq> []) (candidates pf env name) = Some c" by auto
  then show "fs c = Inr RegularFile" unfolding find_Some_iff by blast
qed

theorem findExecutableInPath_never_raises_witness:
  "{..<length (candidates posix_platform \<lparr>env_PATH = Some ''/a'', env_PATHEXT = None\<rparr> ''scarb'')} \<subseteq> set [0]
   \<and> fs_with [] [] ''/a/scarb'' = Inl ENOENT
   \<and> fileExists (fs_with [] []) ''/a/scarb'' = Fulfilled None
   \<and> (\<exists>r. fst (findExecutableInPath posix_platform \<lparr>env_PATH = Some ''/a'', env_PATHEXT = None\<rparr>
               (fs_with [] []) [0] ''scarb'') = Fulfilled r)
   \<and> env_PATH \<lparr>env_PATH = None, env_PATHEXT = None\<rparr> = None
   \<and> findExecutableInPath posix_platform \<lparr>env_PATH = None, env_PATHEXT = None\<rparr>
         (fs_with [''/a/scarb''] []) [] ''scarb'' = (Fulfilled None, [])
   \<and> fst (findExecutableInPath posix_platform \<lparr>env_PATH = Some ''/a'', env_PATHEXT = None\<rparr>
         (fs_with [''/a/scarb''] []) [0] ''scarb'') = Fulfilled (Some ''/a/scarb'')
   \<and> fs_with [''/a/scarb''] [] ''/a/scarb'' = Inr RegularFile"
proof -
  let ?env = "\<lparr>env_PATH = Some ''/a'', env_PATHEXT = None\<rparr>"
  let ?none = "\<lparr>env_PATH = None, env_PATHEXT = None\<rparr>"
  have cands: "candidates posix_platform ?env ''scarb'' = [''/a/scarb'']"
    by (simp add: candidates_def pathDirs_def extensions_def posix_platform_def or_empty_def
        remove_quotes_def)
  have order: "{..<length (candidates posix_platform ?env ''scarb'')} \<subseteq> set [0]"
    unfolding cands by auto
  have missing: "fs_with [] [] ''/a/scarb'' = Inl ENOENT" by (simp add: fs_with_def)
  note a = findExecutableInPath_never_raises [of posix_platform ?env "fs_with [] []" "[0]" "''scarb''"]
  note b = findExecutableInPath_never_raises
    [of posix_platform ?none "fs_with [''/a/scarb''] []" "[]" "''scarb''"]
  note c = findExecutableInPath_never_raises
    [of posix_platform ?env "fs_with [''/a/scarb''] []" "[0]" "''scarb''"]
  from a missing have 1: "fileExists (fs_with [] []) ''/a/scarb'' = Fulfilled None" by blast
  from a order have 2: "\<exists>r. fst (findExecutableInPath posix_platform ?env
               (fs_with [] []) [0] ''scarb'') = Fulfilled r" by blast
  have 3: "env_PATH ?none = None" by simp
  with b have 4: "findExecutableInPath posix_platform ?none
         (fs_with [''/a/scarb''] []) [] ''scarb'' = (Fulfilled None, [])" by blast
  have 5: "fst (findExecutableInPath posix_platform ?env
         (fs_with [''/a/scarb''] []) [0] ''scarb'') = Fulfilled (Some ''/a/scarb'')"
    using findExecutableInPath_complete [OF order, of "fs_with [''/a/scarb''] []"]
    unfolding cands by (simp add: fs_with_def)
  with c have 6: "fs_with [''/a/scarb''] [] ''/a/scarb'' = Inr RegularFile" by blast
  from order missing 1 2 3 4 5 6 show ?thesis by blast
qed

subsection \<open>The walk towards a development build\<close>

lemma dev_candidates_0: "dev_candidates root 0 = []"
  by (simp add: dev_candidates_def)

lemma dev_candidates_Suc:
  "dev_candidates root (Suc n) =
     [root @ ''/target/release/cairo-language-server'',
      root @ ''/target/debug/cairo-language-server''] @ dev_candidates (root @ ''/..'') n"
proof -
  have "[0..<Suc n] = 0 # map Suc [0..<n]"
    by (simp add: upt_conv_Cons map_Suc_upt del: upt_Suc)
  then show ?thesis
    unfolding dev_candidates_def by (simp add: comp_def del: upt_Suc)
qed

lemma length_dev_candidates: "length (dev_candidates root n) = 2 * n"
  by (induction n arbitrary: root) (simp_all add: dev_candidates_0 dev_candidates_Suc)

lemma findDevLanguageServerAt_trace:
  "findDevLanguageServerAt fs root n =
     (find (existsSync fs) (dev_candidates root n),
      map ExistsSync
        (takeWhile (\<lambda>c. \<not> existsSync fs c) (dev_candidates root n)
         @ (case find (existsSync fs) (dev_candidates root n) of None \<Rightarrow> [] | Some c \<Rightarrow> [c])))"
proof (induction n arbitrary: root)
  case 0
  then show ?case by (simp add: dev_candidates_0)
next
  case (Suc n)
  show ?case
    unfolding dev_candidates_Suc
    by (simp add: Suc.IH Let_def)
qed


lemma dev_candidates_nth:
  "k < n \<Longrightarrow>
   dev_candidates root n ! (2 * k)
     = root @ concat (replicate k ''/..'') @ ''/target/release/cairo-language-server''
   \<and> dev_candidates root n ! (2 * k + 1)
     = root @ concat (replicate k ''/..'') @ ''/target/debug/cairo-language-server''"
proof (induction n arbitrary: root k)
  case 0
  then show ?case by simp
next
  case (Suc n)
  show ?case
  proof (cases k)
    case 0
    then show ?thesis by (simp add: dev_candidates_Suc)
  next
    case (Suc k')
    with Suc.prems have "k' < n" by simp
    from Suc.IH [OF this, of "root @ ''/..''"] Suc show ?thesis
      by (simp add: dev_candidates_Suc)
  qed
qed

lemma findExecutableByConfig_no_override:
  assumes "configuration ctx key = None \<or> configuration ctx key = Some []"
    and "rootPath ctx = Inr root"
  shows "findExecutableByConfig fs ctx key cb = (Inr (fst (cb root)), snd (cb root))"
  using assms
  by (auto simp: findExecutableByConfig_def split: prod.splits)

text \<open>
  C5. From any starting directory the walk probes, in this order and for at most ten
  levels, the release build and then the debug build of each level, one directory
  further up per level; it stops at the first that exists and returns it, having probed
  nothing beyond it; when none of the twenty exists it has probed them all and returns
  undefined. It is the fallback of the language server: without an override it runs from
  the root of the workspace with depth 10.
\<close>

theorem findDevLanguageServerAt_release_then_debug_ten_levels:
  "fst (findDevLanguageServerAt fs root 10) = find (existsSync fs) (dev_candidates root 10)
   \<and> snd (findDevLanguageServerAt fs root 10) =
       map ExistsSync
         (takeWhile (\<lambda>c. \<not> existsSync fs c) (dev_candidates root 10)
          @ (case find (existsSync fs) (dev_candidates root 10) of None \<Rightarrow> [] | Some c \<Rightarrow> [c]))
   \<and> length (dev_candidates root 10) = 20
   \<and> (\<forall>k<10.
         dev_candidates root 10 ! (2 * k)
           = root @ concat (replicate k ''/..'') @ ''/target/release/cairo-language-server''
         \<and> dev_candidates root 10 ! (2 * k + 1)
           = root @ concat (replicate k ''/..'') @ ''/target/debug/cairo-language-server'')
   \<and> ((\<forall>c\<in>set (dev_candidates root 10). \<not> existsSync fs c) \<longrightarrow>
         findDevLanguageServerAt fs root 10 = (None, map ExistsSync (dev_candidates root 10)))
   \<and> (configuration ctx ''cairo1.languageServerPath'' = None
        \<and> workspaceFolders ctx = Some (root # others) \<and> root \<noteq> [] \<longrightarrow>
       findLanguageServerExecutable fs ctx =
         (Inr (fst (findDevLanguageServerAt fs root 10)), snd (findDevLanguageServerAt fs root 10)))"
proof (intro conjI allI impI)
  show "fst (findDevLanguageServerAt fs root 10) = find (existsSync fs) (dev_candidates root 10)"
    by (simp add: findDevLanguageServerAt_trace)
  show "snd (findDevLanguageServerAt fs root 10) =
       map ExistsSync
         (takeWhile (\<lambda>c. \<not> existsSync fs c) (dev_candidates root 10)
          @ (case find (existsSync fs) (dev_candidates root 10) of None \<Rightarrow> [] | Some c \<Rightarrow> [c]))"
    by (simp add: findDevLanguageServerAt_trace)
  show "length (dev_candidates root 10) = 20"
    by (simp add: length_dev_candidates)
next
  fix k :: nat assume "k < 10"
  from dev_candidates_nth [OF this, of root]
  show "dev_candidates root 10 ! (2 * k)
           = root @ concat (replicate k ''/..'') @ ''/target/release/cairo-language-server''"
    and "dev_candidates root 10 ! (2 * k + 1)
           = root @ concat (replicate k ''/..'') @ ''/target/debug/cairo-language-server''"
    by simp_all
next
  assume none: "\<forall>c\<in>set (dev_candidates root 10). \<not> existsSync fs c"
  then have fnd: "find (existsSync fs) (dev_candidates root 10) = None"
    by (simp add: find_None_iff)
  from none
  have tw: "takeWhile (\<lambda>c. \<not> existsSync fs c) (dev_candidates root 10) = dev_candidates root 10"
    by simp
  show "findDevLanguageServerAt fs root 10 = (None, map ExistsSync (dev_candidates root 10))"
    unfolding findDevLanguageServerAt_trace fnd tw by simp
next
  assume "configuration ctx ''cairo1.languageServerPath'' = None
        \<and> workspaceFolders ctx = Some (root # others) \<and> root \<noteq> []"
  then show "findLanguageServerExecutable fs ctx =
         (Inr (fst (findDevLanguageServerAt fs root 10)), snd (findDevLanguageServerAt fs root 10))"
    unfolding findLanguageServerExecutable_def
    by (subst findExecutableByConfig_no_override [where root = root]) (simp_all add: rootPath_def)
qed


theorem findDevLanguageServerAt_release_then_debug_ten_levels_witness:
  "findDevLanguageServerAt (fs_with [''/proj/../target/debug/cairo-language-server''] []) ''/proj'' 10
     = (Some ''/proj/../target/debug/cairo-language-server'',
        [ExistsSync ''/proj/target/release/cairo-language-server'',
         ExistsSync ''/proj/target/debug/cairo-language-server'',
         ExistsSync ''/proj/../target/release/cairo-language-server'',
         ExistsSync ''/proj/../target/debug/cairo-language-server''])
   \<and> (1::nat) < 10
   \<and> dev_candidates ''/proj'' 10 ! (2 * 1 + 1) = ''/proj/../target/debug/cairo-language-server''
   \<and> findDevLanguageServerAt (fs_with [] []) ''/proj'' 10
       = (None, map ExistsSync (dev_candidates ''/proj'' 10))
   \<and> findLanguageServerExecutable (fs_with [''/proj/../target/debug/cairo-language-server''] [])
         \<lparr>extensionPath = ''/ext'', workspaceFolders = Some [''/proj''], configuration = (\<lambda>k. None)\<rparr>
       = (Inr (Some ''/proj/../target/debug/cairo-language-server''),
        [ExistsSync ''/proj/target/release/cairo-language-server'',
         ExistsSync ''/proj/target/debug/cairo-language-server'',
         ExistsSync ''/proj/../target/release/cairo-language-server'',
         ExistsSync ''/proj/../target/debug/cairo-language-server''])"
proof -
  let ?F = "''/proj/../target/debug/cairo-language-server''"
  let ?fs = "fs_with [?F] []"
  let ?ctx = "\<lparr>extensionPath = ''/ext'', workspaceFolders = Some [''/proj''], configuration = (\<lambda>k. None)\<rparr>"
  let ?probes = "[ExistsSync ''/proj/target/release/cairo-language-server'',
         ExistsSync ''/proj/target/debug/cairo-language-server'',
         ExistsSync ''/proj/../target/release/cairo-language-server'',
         ExistsSync ''/proj/../target/debug/cairo-language-server'']"
  note a = findDevLanguageServerAt_release_then_debug_ten_levels [of ?fs "''/proj''" ?ctx "[]"]
  note b = findDevLanguageServerAt_release_then_debug_ten_levels [of "fs_with [] []" "''/proj''" ?ctx "[]"]
  have Suc10: "(10::nat) = Suc (Suc (Suc (Suc (Suc (Suc (Suc (Suc (Suc (Suc 0)))))))))" by simp
  have fnd: "find (existsSync ?fs) (dev_candidates ''/proj'' 10) = Some ?F"
    unfolding Suc10 by (simp add: dev_candidates_Suc existsSync_def fs_with_def)
  have tw: "takeWhile (\<lambda>c. \<not> existsSync ?fs c) (dev_candidates ''/proj'' 10)
              = [''/proj/target/release/cairo-language-server'',
                 ''/proj/target/debug/cairo-language-server'',
                 ''/proj/../target/release/cairo-language-server'']"
    unfolding Suc10 by (simp add: dev_candidates_Suc existsSync_def fs_with_def)
  from a have "fst (findDevLanguageServerAt ?fs ''/proj'' 10) = find (existsSync ?fs) (dev_candidates ''/proj'' 10)"
    and "snd (findDevLanguageServerAt ?fs ''/proj'' 10) =
       map ExistsSync
         (takeWhile (\<lambda>c. \<not> existsSync ?fs c) (dev_candidates ''/proj'' 10)
          @ (case find (existsSync ?fs) (dev_candidates ''/proj'' 10) of None \<Rightarrow> [] | Some c \<Rightarrow> [c]))"
    by blast+
  then have 1: "findDevLanguageServerAt ?fs ''/proj'' 10 = (Some ?F, ?probes)"
    unfolding fnd tw by (simp add: prod_eq_iff)
  have 2: "(1::nat) < 10" by simp
  with a have 3: "dev_candidates ''/proj'' 10 ! (2 * 1 + 1) = ?F"
    by fastforce
  have "\<forall>c\<in>set (dev_candidates ''/proj'' 10). \<not> existsSync (fs_with [] []) c"
    by (simp add: existsSync_def fs_with_def)
  with b have 4: "findDevLanguageServerAt (fs_with [] []) ''/proj'' 10
       = (None, map ExistsSync (dev_candidates ''/proj'' 10))"
    by blast
  have "configuration ?ctx ''cairo1.languageServerPath'' = None
        \<and> workspaceFolders ?ctx = Some (''/proj'' # []) \<and> ''/proj'' \<noteq> []" by simp
  with a have "findLanguageServerExecutable ?fs ?ctx =
         (Inr (fst (findDevLanguageServerAt ?fs ''/proj'' 10)), snd (findDevLanguageServerAt ?fs ''/proj'' 10))"
    by blast
  with 1 have 5: "findLanguageServerExecutable ?fs ?ctx = (Inr (Some ?F), ?probes)" by simp
  from 1 2 3 4 5 show ?thesis by blast
qed


lemma dollar_pattern_free_Cons:
  "dollar_pattern_free (c # d # r) \<Longrightarrow>
   dollar_pattern_free (d # r)
   \<and> \<not> (c = CHR ''$'' \<and> (d = CHR ''$'' \<or> d = CHR ''&'' \<or> d = CHR 0x60 \<or> d = CHR 0x27))"
  unfolding dollar_pattern_free_def
  by (auto simp: sublist_Cons_right)

lemma getSubstitution_verbatim:
  "dollar_pattern_free r \<Longrightarrow> getSubstitution m p f r = r"
proof (induction m p f r rule: getSubstitution.induct)
  case (1 matched preceding following c d r)
  from dollar_pattern_free_Cons [OF "1.prems"]
  have free: "dollar_pattern_free (d # r)"
    and no: "\<not> (c = CHR ''$'' \<and> (d = CHR ''$'' \<or> d = CHR ''&'' \<or> d = CHR 0x60 \<or> d = CHR 0x27))"
    by simp_all
  show ?case
  proof (cases "c = CHR ''$''")
    case True
    with no have "d \<noteq> CHR ''$''" "d \<noteq> CHR ''&''" "d \<noteq> CHR 0x60" "d \<noteq> CHR 0x27" by simp_all
    with True "1.IH"(5) free show ?thesis by simp
  next
    case False
    with "1.IH"(6) free show ?thesis by simp
  qed
qed simp_all

lemma replace_all_from_no_match:
  "\<not> sublist pat s \<Longrightarrow> replace_all_from pat repl pre s = s"
proof (induction s arbitrary: pre)
  case Nil
  then show ?case by simp
next
  case (Cons x xs)
  have "take (length pat) (x # xs) \<noteq> pat"
  proof
    assume "take (length pat) (x # xs) = pat"
    then have "prefix pat (x # xs)" by (metis take_is_prefix)
    with Cons.prems show False by (simp add: prefix_imp_sublist)
  qed
  moreover from Cons.prems have "\<not> sublist pat xs"
    by (meson sublist_Cons_right)
  ultimately show ?case using Cons.IH by simp
qed

lemma no_match_before_placeholder:
  assumes "pat = c # cs" and "c \<notin> set cs" and "\<not> sublist pat (x # xs)"
  shows "take (length pat) ((x # xs) @ pat @ rest) \<noteq> pat"
proof
  assume eq: "take (length pat) ((x # xs) @ pat @ rest) = pat"
  show False
  proof (cases "length pat \<le> length (x # xs)")
    case True
    with eq take_append [of "length pat" "x # xs" "pat @ rest"]
    have "take (length pat) (x # xs) = pat" by simp
    then have "prefix pat (x # xs)" by (metis take_is_prefix)
    with assms(3) show False by (simp add: prefix_imp_sublist)
  next
    case False
    then have short: "length xs < length cs" using assms(1) by simp
    have "take (length pat) ((x # xs) @ (pat @ rest))
            = take (length pat) (x # xs) @ take (length pat - length (x # xs)) (pat @ rest)"
      by (rule take_append)
    moreover have "take (length pat) (x # xs) = x # xs" using False by simp
    ultimately have "pat = (x # xs) @ take (length pat - length (x # xs)) (pat @ rest)"
      using eq by (simp only:)
    then have "c # cs = (x # xs) @ take (length (c # cs) - length (x # xs)) ((c # cs) @ rest)"
      unfolding assms(1) .
    then have "cs = xs @ take (length cs - length xs) (c # cs @ rest)"
      by auto
    moreover from short have "take (length cs - length xs) (c # cs @ rest)
        = c # take (length cs - length xs - 1) (cs @ rest)"
      by (cases "length cs - length xs") simp_all
    ultimately have "cs = xs @ c # take (length cs - length xs - 1) (cs @ rest)"
      by (simp only:)
    then have "c \<in> set cs"
      by (metis in_set_conv_decomp)
    with assms(2) show False by simp
  qed
qed

lemma replace_all_from_piece:
  assumes "pat = c # cs" and "c \<notin> set cs" and "\<not> sublist pat p"
  shows "replace_all_from pat repl pre (p @ pat @ rest) =
           p @ getSubstitution pat (pre @ p) rest repl
             @ replace_all_from pat repl (pre @ p @ pat) rest"
  using assms(3)
proof (induction p arbitrary: pre)
  case Nil
  show ?case using assms(1) by simp
next
  case (Cons x xs)
  from no_match_before_placeholder [OF assms(1,2) Cons.prems]
  have "take (length pat) ((x # xs) @ pat @ rest) \<noteq> pat" .
  moreover from Cons.prems have "\<not> sublist pat xs"
    by (meson sublist_Cons_right)
  ultimately show ?case using Cons.IH [of "pre @ [x]"] by simp
qed

lemma replace_all_from_join_with:
  assumes "pat = c # cs" and "c \<notin> set cs" and "dollar_pattern_free repl"
  shows "pieces \<noteq> [] \<Longrightarrow> \<forall>p\<in>set pieces. \<not> sublist pat p \<Longrightarrow>
         replace_all_from pat repl pre (join_with pat pieces) = join_with repl pieces"
proof (induction pieces arbitrary: pre rule: induct_list012)
  case 1
  then show ?case by simp
next
  case (2 w)
  then show ?case by (simp add: replace_all_from_no_match)
next
  case (3 w v ws)
  from "3.prems" have w: "\<not> sublist pat w" and rest: "\<forall>p\<in>set (v # ws). \<not> sublist pat p"
    by simp_all
  from "3.IH"(2) [OF _ rest]
  have "replace_all_from pat repl (pre @ w @ pat) (join_with pat (v # ws)) = join_with repl (v # ws)"
    by simp
  then show ?case
    using assms(3)
    by (simp add: replace_all_from_piece [OF assms(1,2) w] getSubstitution_verbatim)
qed

subsection \<open>The override of the configuration\<close>

lemma placeholder_first_not_later:
  "workspaceFolder_placeholder = CHR ''$'' # ''{workspaceFolder}''
   \<and> CHR ''$'' \<notin> set ''{workspaceFolder}''"
  by (simp add: workspaceFolder_placeholder_def)

lemma replace_all_join_with_placeholder:
  assumes "dollar_pattern_free root" and "pieces \<noteq> []"
    and "\<forall>p\<in>set pieces. \<not> sublist workspaceFolder_placeholder p"
  shows "replace_all workspaceFolder_placeholder root (join_with workspaceFolder_placeholder pieces)
           = join_with root pieces"
  unfolding replace_all_def
  using placeholder_first_not_later assms
  by (intro replace_all_from_join_with [where c = "CHR ''$''" and cs = "''{workspaceFolder}''"])
    simp_all

lemma join_with_decomposition:
  assumes "pat \<noteq> []"
  shows "\<exists>pieces. pieces \<noteq> [] \<and> (\<forall>p\<in>set pieces. \<not> sublist pat p) \<and> s = join_with pat pieces"
proof (induction s rule: length_induct)
  case (1 s)
  show ?case
  proof (cases "sublist pat s")
    case False
    then have "[s] \<noteq> [] \<and> (\<forall>p\<in>set [s]. \<not> sublist pat p) \<and> s = join_with pat [s]" by simp
    then show ?thesis by blast
  next
    case True
    define n where "n = (LEAST k. \<exists>ps ss. s = ps @ pat @ ss \<and> length ps = k)"
    from True have "\<exists>k. \<exists>ps ss. s = ps @ pat @ ss \<and> length ps = k"
      unfolding sublist_def by blast
    then have "\<exists>ps ss. s = ps @ pat @ ss \<and> length ps = n"
      unfolding n_def by (rule LeastI_ex)
    then obtain ps ss where s: "s = ps @ pat @ ss" and len: "length ps = n" by blast
    have ps: "\<not> sublist pat ps"
    proof
      assume "sublist pat ps"
      then obtain a b where "ps = a @ pat @ b" unfolding sublist_def by blast
      with s have "\<exists>ps' ss'. s = ps' @ pat @ ss' \<and> length ps' = length a" by auto
      then have "n \<le> length a" unfolding n_def by (rule Least_le)
      with len \<open>ps = a @ pat @ b\<close> assms show False by (cases pat) simp_all
    qed
    from s assms have "length ss < length s" by (cases pat) simp_all
    with 1 obtain pieces where pieces: "pieces \<noteq> []" "\<forall>p\<in>set pieces. \<not> sublist pat p"
      "ss = join_with pat pieces" by blast
    from pieces(1) obtain v vs where "pieces = v # vs" by (cases pieces) auto
    with s pieces(3) have "s = join_with pat (ps # pieces)" by simp
    with ps pieces(2) have "ps # pieces \<noteq> [] \<and> (\<forall>p\<in>set (ps # pieces). \<not> sublist pat p)
        \<and> s = join_with pat (ps # pieces)" by simp
    then show ?thesis by blast
  qed
qed

lemma findExecutableByConfig_override:
  assumes "rootPath ctx = Inr root" and "configuration ctx key = Some cfg" and "cfg \<noteq> []"
  shows "findExecutableByConfig fs ctx key cb =
           (Inr (if existsSync fs (replace_all workspaceFolder_placeholder root cfg)
                 then Some (replace_all workspaceFolder_placeholder root cfg) else None),
            [ExistsSync (replace_all workspaceFolder_placeholder root cfg)])"
  using assms by (simp add: findExecutableByConfig_def Let_def)

lemma snd_findExecutableInPath:
  "snd (findExecutableInPath pf env fs order name) = map Stat (candidates pf env name)"
  by (simp add: findExecutableInPath_def Let_def)

lemma findScarbExecutable_complete:
  assumes "{..<length (candidates pf env ''scarb'')} \<subseteq> set order"
  shows "findScarbExecutable pf env fs order ctx =
           (case findExecutableByConfig fs ctx ''cairo1.scarbPath''
                   (\<lambda>rootPath. (find (\<lambda>p. fs p = Inr RegularFile \<and> p \<noteq> [])
                                   (candidates pf env ''scarb''), [])) of
              (Inl e, probes) \<Rightarrow> (Rejected e, map Stat (candidates pf env ''scarb'') @ probes)
            | (Inr r, probes) \<Rightarrow> (Fulfilled r, map Stat (candidates pf env ''scarb'') @ probes))"
proof -
  have "findExecutableInPath pf env fs order ''scarb'' =
          (Fulfilled (find (\<lambda>p. fs p = Inr RegularFile \<and> p \<noteq> []) (candidates pf env ''scarb'')),
           map Stat (candidates pf env ''scarb''))"
    using findExecutableInPath_complete [OF assms, of fs] snd_findExecutableInPath [of pf env fs order "''scarb''"]
    by (simp add: prod_eq_iff)
  then show ?thesis by (simp add: findScarbExecutable_def)
qed

text \<open>
  C1, as amended. Let the root path be determined (the list of workspace folders is not
  an empty list) and let an override be configured, non-empty, whose path after
  substitution does not exist. Then resolution returns undefined whatever the fallback
  is, and the fallback is not called. For the language server the walk towards a
  development build is not run: the only probe is that of the override. For the build
  tool the search of PATH has already run to its end before the override is looked at:
  its probes come first in the log, and what it found is not used.
\<close>

theorem broken_override_is_a_miss_whatever_the_fallback:
  assumes "rootPath ctx = Inr root"
    and "configuration ctx key = Some cfg" and "cfg \<noteq> []"
    and "\<not> existsSync fs (replace_all workspaceFolder_placeholder root cfg)"
  shows "findExecutableByConfig fs ctx key cb
           = (Inr None, [ExistsSync (replace_all workspaceFolder_placeholder root cfg)])
         \<and> (key = ''cairo1.languageServerPath'' \<longrightarrow>
              findLanguageServerExecutable fs ctx
                = (Inr None, [ExistsSync (replace_all workspaceFolder_placeholder root cfg)]))
         \<and> (key = ''cairo1.scarbPath'' \<and> {..<length (candidates pf env ''scarb'')} \<subseteq> set order \<longrightarrow>
              findScarbExecutable pf env fs order ctx
                = (Fulfilled None,
                   map Stat (candidates pf env ''scarb'')
                   @ [ExistsSync (replace_all workspaceFolder_placeholder root cfg)]))"
proof (intro conjI impI)
  show "findExecutableByConfig fs ctx key cb
           = (Inr None, [ExistsSync (replace_all workspaceFolder_placeholder root cfg)])"
    using assms(4) by (simp add: findExecutableByConfig_override [OF assms(1,2,3)])
next
  assume key: "key = ''cairo1.languageServerPath''"
  show "findLanguageServerExecutable fs ctx
                = (Inr None, [ExistsSync (replace_all workspaceFolder_placeholder root cfg)])"
    unfolding findLanguageServerExecutable_def key [symmetric]
    using assms(4) by (simp add: findExecutableByConfig_override [OF assms(1,2,3)])
next
  assume "key = ''cairo1.scarbPath'' \<and> {..<length (candidates pf env ''scarb'')} \<subseteq> set order"
  then have key: "key = ''cairo1.scarbPath''"
    and order: "{..<length (candidates pf env ''scarb'')} \<subseteq> set order" by simp_all
  show "findScarbExecutable pf env fs order ctx
                = (Fulfilled None,
                   map Stat (candidates pf env ''scarb'')
                   @ [ExistsSync (replace_all workspaceFolder_placeholder root cfg)])"
    unfolding findScarbExecutable_complete [OF order] key [symmetric]
    using assms(4) by (simp add: findExecutableByConfig_override [OF assms(1,2,3)])
qed

theorem broken_override_is_a_miss_whatever_the_fallback_witness:
  "rootPath \<lparr>extensionPath = ''/ext'', workspaceFolders = Some [''/proj''],
              configuration = (\<lambda>k. Some ''${workspaceFolder}/bin/tool'')\<rparr> = Inr ''/proj''
   \<and> \<not> existsSync (fs_with [''/proj/target/release/cairo-language-server'', ''/bin/scarb''] [])
         ''/proj/bin/tool''
   \<and> findLanguageServerExecutable (fs_with [''/proj/target/release/cairo-language-server'', ''/bin/scarb''] [])
        \<lparr>extensionPath = ''/ext'', workspaceFolders = Some [''/proj''],
              configuration = (\<lambda>k. Some ''${workspaceFolder}/bin/tool'')\<rparr>
       = (Inr None, [ExistsSync ''/proj/bin/tool''])
   \<and> {..<length (candidates posix_platform \<lparr>env_PATH = Some ''/bin'', env_PATHEXT = None\<rparr> ''scarb'')}
        \<subseteq> set [0]
   \<and> findScarbExecutable posix_platform \<lparr>env_PATH = Some ''/bin'', env_PATHEXT = None\<rparr>
        (fs_with [''/proj/target/release/cairo-language-server'', ''/bin/scarb''] []) [0]
        \<lparr>extensionPath = ''/ext'', workspaceFolders = Some [''/proj''],
              configuration = (\<lambda>k. Some ''${workspaceFolder}/bin/tool'')\<rparr>
       = (Fulfilled None, [Stat ''/bin/scarb'', ExistsSync ''/proj/bin/tool''])"
proof -
  let ?ctx = "\<lparr>extensionPath = ''/ext'', workspaceFolders = Some [''/proj''],
              configuration = (\<lambda>k. Some ''${workspaceFolder}/bin/tool'')\<rparr>"
  let ?fs = "fs_with [''/proj/target/release/cairo-language-server'', ''/bin/scarb''] []"
  let ?env = "\<lparr>env_PATH = Some ''/bin'', env_PATHEXT = None\<rparr>"
  have root: "rootPath ?ctx = Inr ''/proj''" by (simp add: rootPath_def)
  have subst: "replace_all workspaceFolder_placeholder ''/proj'' ''${workspaceFolder}/bin/tool''
                 = ''/proj/bin/tool''"
    by (simp add: replace_all_def workspaceFolder_placeholder_def)
  have missing: "\<not> existsSync ?fs (replace_all workspaceFolder_placeholder ''/proj'' ''${workspaceFolder}/bin/tool'')"
    unfolding subst by (simp add: existsSync_def fs_with_def)
  have cands: "candidates posix_platform ?env ''scarb'' = [''/bin/scarb'']"
    by (simp add: candidates_def pathDirs_def extensions_def posix_platform_def or_empty_def
        remove_quotes_def)
  have order: "{..<length (candidates posix_platform ?env ''scarb'')} \<subseteq> set [0]"
    unfolding cands by auto
  have cfgL: "configuration ?ctx ''cairo1.languageServerPath'' = Some ''${workspaceFolder}/bin/tool''"
    and cfgS: "configuration ?ctx ''cairo1.scarbPath'' = Some ''${workspaceFolder}/bin/tool''"
    by simp_all
  have ne: "''${workspaceFolder}/bin/tool'' \<noteq> []" by simp
  from broken_override_is_a_miss_whatever_the_fallback [OF root cfgL ne missing]
  have 1: "findLanguageServerExecutable ?fs ?ctx = (Inr None, [ExistsSync ''/proj/bin/tool''])"
    unfolding subst by blast
  from broken_override_is_a_miss_whatever_the_fallback
    [OF root cfgS ne missing, where pf = posix_platform and env = ?env and order = "[0]"] order
  have 2: "findScarbExecutable posix_platform ?env ?fs [0] ?ctx
       = (Fulfilled None, [Stat ''/bin/scarb'', ExistsSync ''/proj/bin/tool''])"
    unfolding subst cands by simp
  from missing have 3: "\<not> existsSync ?fs ''/proj/bin/tool''" unfolding subst .
  from root 1 2 3 order show ?thesis by blast
qed

theorem scarb_search_of_PATH_runs_before_override_counterexample:
  "findScarbExecutable posix_platform \<lparr>env_PATH = Some ''/bin'', env_PATHEXT = None\<rparr>
     (fs_with [''/bin/scarb''] []) [0]
     \<lparr>extensionPath = ''/ext'', workspaceFolders = None,
        configuration = (\<lambda>k. if k = ''cairo1.scarbPath'' then Some ''/nowhere/scarb'' else None)\<rparr>
   = (Fulfilled None, [Stat ''/bin/scarb'', ExistsSync ''/nowhere/scarb''])"
  by (simp add: findScarbExecutable_def findExecutableInPath_def candidates_def pathDirs_def
      extensions_def posix_platform_def or_empty_def remove_quotes_def promise_all_def
      fileExists_def promise_then_def stat_def isFile_def fs_with_def find_truthy_def truthy_def
      findExecutableByConfig_def rootPath_def replace_all_def workspaceFolder_placeholder_def
      existsSync_def)

text \<open>
  C3, as amended. Let the root path be determined and let an override be configured
  and non-empty. After substitution the path is checked for existence only: it is
  returned when an entry of any kind is found there, a regular file or a directory
  alike, and resolution returns undefined when there is none.
\<close>

theorem override_is_returned_iff_it_exists:
  assumes "rootPath ctx = Inr root"
    and "configuration ctx key = Some cfg" and "cfg \<noteq> []"
  shows "findExecutableByConfig fs ctx key cb
           = ((case fs (replace_all workspaceFolder_placeholder root cfg) of
                 Inl err \<Rightarrow> Inr None
               | Inr kind \<Rightarrow> Inr (Some (replace_all workspaceFolder_placeholder root cfg))),
              [ExistsSync (replace_all workspaceFolder_placeholder root cfg)])
         \<and> (fs (replace_all workspaceFolder_placeholder root cfg) = Inr RegularFile \<longrightarrow>
              fst (findExecutableByConfig fs ctx key cb)
                = Inr (Some (replace_all workspaceFolder_placeholder root cfg)))
         \<and> (fs (replace_all workspaceFolder_placeholder root cfg) = Inr Directory \<longrightarrow>
              fst (findExecutableByConfig fs ctx key cb)
                = Inr (Some (replace_all workspaceFolder_placeholder root cfg)))
         \<and> (\<forall>err. fs (replace_all workspaceFolder_placeholder root cfg) = Inl err \<longrightarrow>
              fst (findExecutableByConfig fs ctx key cb) = Inr None)"
  by (auto simp: findExecutableByConfig_override [OF assms] existsSync_def split: sum.splits)

theorem override_is_returned_iff_it_exists_witness:
  "rootPath \<lparr>extensionPath = ''/ext'', workspaceFolders = Some [''/proj''],
              configuration = (\<lambda>k. Some ''${workspaceFolder}/bin/ls'')\<rparr> = Inr ''/proj''
   \<and> fs_with [''/proj/bin/ls''] [] ''/proj/bin/ls'' = Inr RegularFile
   \<and> fst (findExecutableByConfig (fs_with [''/proj/bin/ls''] [])
        \<lparr>extensionPath = ''/ext'', workspaceFolders = Some [''/proj''],
              configuration = (\<lambda>k. Some ''${workspaceFolder}/bin/ls'')\<rparr>
        ''cairo1.languageServerPath'' (\<lambda>r. (None, [])))
       = Inr (Some ''/proj/bin/ls'')
   \<and> fs_with [] [''/proj/bin/ls''] ''/proj/bin/ls'' = Inr Directory
   \<and> fst (findExecutableByConfig (fs_with [] [''/proj/bin/ls''])
        \<lparr>extensionPath = ''/ext'', workspaceFolders = Some [''/proj''],
              configuration = (\<lambda>k. Some ''${workspaceFolder}/bin/ls'')\<rparr>
        ''cairo1.languageServerPath'' (\<lambda>r. (None, [])))
       = Inr (Some ''/proj/bin/ls'')
   \<and> fs_with [] [] ''/proj/bin/ls'' = Inl ENOENT
   \<and> fst (findExecutableByConfig (fs_with [] [])
        \<lparr>extensionPath = ''/ext'', workspaceFolders = Some [''/proj''],
              configuration = (\<lambda>k. Some ''${workspaceFolder}/bin/ls'')\<rparr>
        ''cairo1.languageServerPath'' (\<lambda>r. (None, [])))
       = Inr None"
proof -
  let ?ctx = "\<lparr>extensionPath = ''/ext'', workspaceFolders = Some [''/proj''],
              configuration = (\<lambda>k. Some ''${workspaceFolder}/bin/ls'')\<rparr>"
  let ?key = "''cairo1.languageServerPath''"
  let ?cb = "\<lambda>r::string. (None :: string option, [] :: probe list)"
  have root: "rootPath ?ctx = Inr ''/proj''" by (simp add: rootPath_def)
  have cfg: "configuration ?ctx ?key = Some ''${workspaceFolder}/bin/ls''" by simp
  have ne: "''${workspaceFolder}/bin/ls'' \<noteq> []" by simp
  have subst: "replace_all workspaceFolder_placeholder ''/proj'' ''${workspaceFolder}/bin/ls''
                 = ''/proj/bin/ls''"
    by (simp add: replace_all_def workspaceFolder_placeholder_def)
  note inst = override_is_returned_iff_it_exists [OF root cfg ne, where cb = ?cb, unfolded subst]
  have f: "fs_with [''/proj/bin/ls''] [] ''/proj/bin/ls'' = Inr RegularFile"
    and d: "fs_with [] [''/proj/bin/ls''] ''/proj/bin/ls'' = Inr Directory"
    and m: "fs_with [] [] ''/proj/bin/ls'' = Inl ENOENT"
    by (simp_all add: fs_with_def)
  from inst [of "fs_with [''/proj/bin/ls''] []"] f
  have 1: "fst (findExecutableByConfig (fs_with [''/proj/bin/ls''] []) ?ctx ?key ?cb)
             = Inr (Some ''/proj/bin/ls'')" by blast
  from inst [of "fs_with [] [''/proj/bin/ls'']"] d
  have 2: "fst (findExecutableByConfig (fs_with [] [''/proj/bin/ls'']) ?ctx ?key ?cb)
             = Inr (Some ''/proj/bin/ls'')" by blast
  from inst [of "fs_with [] []"] m
  have 3: "fst (findExecutableByConfig (fs_with [] []) ?ctx ?key ?cb) = Inr None" by blast
  from root f d m 1 2 3 show ?thesis by blast
qed

theorem override_naming_a_directory_is_returned_counterexample:
  "fs_with [] [''/opt/cairo''] ''/opt/cairo'' = Inr Directory
   \<and> findLanguageServerExecutable (fs_with [] [''/opt/cairo''])
        \<lparr>extensionPath = ''/ext'', workspaceFolders = None,
           configuration = (\<lambda>k. if k = ''cairo1.languageServerPath'' then Some ''/opt/cairo'' else None)\<rparr>
       = (Inr (Some ''/opt/cairo''), [ExistsSync ''/opt/cairo''])"
  by (simp add: findLanguageServerExecutable_def findExecutableByConfig_def rootPath_def
      replace_all_def workspaceFolder_placeholder_def existsSync_def fs_with_def Let_def)

text \<open>
  The root path is a replacement template for \<^verbatim>\<open>replace\<close>: a dollar pattern in it is
  expanded, here \<^verbatim>\<open>$&\<close> to the placeholder itself and \<^verbatim>\<open>$$\<close> to one dollar sign.
\<close>

lemma dollar_patterns_of_the_root_path_are_expanded:
  "replace_all workspaceFolder_placeholder ''/w/a$&b'' ''${workspaceFolder}/ls''
     = ''/w/a${workspaceFolder}b/ls''
   \<and> replace_all workspaceFolder_placeholder ''/w/a$$b'' ''${workspaceFolder}/ls'' = ''/w/a$b/ls''"
  by (simp add: replace_all_def workspaceFolder_placeholder_def)

text \<open>
  C9, as amended. Let an override be configured and non-empty, let the root path be
  determined and let none of the patterns \<^verbatim>\<open>$$\<close>, \<^verbatim>\<open>$&\<close>, \<^verbatim>\<open>$`\<close> and \<^verbatim>\<open>$'\<close> occur in it (a
  dollar sign before anything else is harmless). The root path is the path of the first
  workspace folder when the list of folders is defined and that path is not empty, and
  the install path of the extension when the list is undefined or the path of the first
  folder is empty. The override is, in one way at least, a sequence of pieces free of
  the placeholder with the placeholder between them; the path that is checked for
  existence, and returned when it exists, is the same pieces with the root path between
  them.
\<close>

theorem placeholder_is_replaced_by_the_root_path:
  assumes "rootPath ctx = Inr root" and "dollar_pattern_free root"
    and "configuration ctx key = Some cfg" and "cfg \<noteq> []"
  shows "(workspaceFolders ctx = None \<longrightarrow> root = extensionPath ctx)
       \<and> (\<forall>folder others. workspaceFolders ctx = Some (folder # others) \<longrightarrow>
             root = (if folder \<noteq> [] then folder else extensionPath ctx))
       \<and> (\<exists>pieces. pieces \<noteq> [] \<and> (\<forall>p\<in>set pieces. \<not> sublist workspaceFolder_placeholder p)
             \<and> cfg = join_with workspaceFolder_placeholder pieces)
       \<and> (\<forall>pieces. pieces \<noteq> [] \<and> (\<forall>p\<in>set pieces. \<not> sublist workspaceFolder_placeholder p)
               \<and> cfg = join_with workspaceFolder_placeholder pieces \<longrightarrow>
             findExecutableByConfig fs ctx key cb
               = (Inr (if existsSync fs (join_with root pieces)
                       then Some (join_with root pieces) else None),
                  [ExistsSync (join_with root pieces)]))"
proof (intro conjI allI impI)
  assume "workspaceFolders ctx = None"
  with assms(1) show "root = extensionPath ctx" by (simp add: rootPath_def)
next
  fix folder others assume "workspaceFolders ctx = Some (folder # others)"
  with assms(1) show "root = (if folder \<noteq> [] then folder else extensionPath ctx)"
    by (simp add: rootPath_def)
next
  have "workspaceFolder_placeholder \<noteq> []" by (simp add: workspaceFolder_placeholder_def)
  then show "\<exists>pieces. pieces \<noteq> [] \<and> (\<forall>p\<in>set pieces. \<not> sublist workspaceFolder_placeholder p)
             \<and> cfg = join_with workspaceFolder_placeholder pieces"
    by (rule join_with_decomposition)
next
  fix pieces
  assume "pieces \<noteq> [] \<and> (\<forall>p\<in>set pieces. \<not> sublist workspaceFolder_placeholder p)
               \<and> cfg = join_with workspaceFolder_placeholder pieces"
  then have "replace_all workspaceFolder_placeholder root cfg = join_with root pieces"
    using replace_all_join_with_placeholder [OF assms(2), of pieces] by simp
  then show "findExecutableByConfig fs ctx key cb
               = (Inr (if existsSync fs (join_with root pieces)
                       then Some (join_with root pieces) else None),
                  [ExistsSync (join_with root pieces)])"
    by (simp add: findExecutableByConfig_override [OF assms(1,3,4)])
qed

theorem placeholder_is_replaced_by_the_root_path_witness:
  "rootPath \<lparr>extensionPath = ''/ext'', workspaceFolders = Some [''/c$/proj'', ''/other''],
              configuration = (\<lambda>k. Some ''${workspaceFolder}/x${workspaceFolder}/ls'')\<rparr> = Inr ''/c$/proj''
   \<and> dollar_pattern_free ''/c$/proj''
   \<and> CHR ''$'' \<in> set ''/c$/proj''
   \<and> ''${workspaceFolder}/x${workspaceFolder}/ls'' = join_with workspaceFolder_placeholder ['''', ''/x'', ''/ls'']
   \<and> findExecutableByConfig (fs_with [''/c$/proj/x/c$/proj/ls''] [])
        \<lparr>extensionPath = ''/ext'', workspaceFolders = Some [''/c$/proj'', ''/other''],
              configuration = (\<lambda>k. Some ''${workspaceFolder}/x${workspaceFolder}/ls'')\<rparr>
        ''cairo1.scarbPath'' (\<lambda>r. (None, []))
       = (Inr (Some ''/c$/proj/x/c$/proj/ls''), [ExistsSync ''/c$/proj/x/c$/proj/ls''])
   \<and> rootPath \<lparr>extensionPath = ''/ext'', workspaceFolders = None,
              configuration = (\<lambda>k. Some ''${workspaceFolder}/x${workspaceFolder}/ls'')\<rparr> = Inr ''/ext''
   \<and> dollar_pattern_free ''/ext''
   \<and> findExecutableByConfig (fs_with [''/c$/proj/x/c$/proj/ls''] [])
        \<lparr>extensionPath = ''/ext'', workspaceFolders = None,
              configuration = (\<lambda>k. Some ''${workspaceFolder}/x${workspaceFolder}/ls'')\<rparr>
        ''cairo1.scarbPath'' (\<lambda>r. (None, []))
       = (Inr None, [ExistsSync ''/ext/x/ext/ls''])"
proof -
  let ?cfg = "''${workspaceFolder}/x${workspaceFolder}/ls''"
  let ?ctx = "\<lparr>extensionPath = ''/ext'', workspaceFolders = Some [''/c$/proj'', ''/other''],
              configuration = (\<lambda>k. Some ?cfg)\<rparr>"
  let ?ctx' = "\<lparr>extensionPath = ''/ext'', workspaceFolders = None,
              configuration = (\<lambda>k. Some ?cfg)\<rparr>"
  let ?fs = "fs_with [''/c$/proj/x/c$/proj/ls''] []"
  let ?cb = "\<lambda>r::string. (None :: string option, [] :: probe list)"
  let ?pieces = "['''', ''/x'', ''/ls'']"
  have root: "rootPath ?ctx = Inr ''/c$/proj''" and root': "rootPath ?ctx' = Inr ''/ext''"
    by (simp_all add: rootPath_def)
  have free: "dollar_pattern_free ''/c$/proj''" and free': "dollar_pattern_free ''/ext''"
    by (simp_all add: dollar_pattern_free_def sublist_Cons_right)
  have dollar: "CHR ''$'' \<in> set ''/c$/proj''" by simp
  have cfg: "configuration ?ctx ''cairo1.scarbPath'' = Some ?cfg"
    and cfg': "configuration ?ctx' ''cairo1.scarbPath'' = Some ?cfg" by simp_all
  have ne: "?cfg \<noteq> []" by simp
  have pieces: "?pieces \<noteq> [] \<and> (\<forall>p\<in>set ?pieces. \<not> sublist workspaceFolder_placeholder p)
                 \<and> ?cfg = join_with workspaceFolder_placeholder ?pieces"
    by (simp add: workspaceFolder_placeholder_def sublist_Cons_right)
  from placeholder_is_replaced_by_the_root_path [OF root free cfg ne, where fs = ?fs and cb = ?cb]
    pieces
  have "findExecutableByConfig ?fs ?ctx ''cairo1.scarbPath'' ?cb
               = (Inr (if existsSync ?fs (join_with ''/c$/proj'' ?pieces)
                       then Some (join_with ''/c$/proj'' ?pieces) else None),
                  [ExistsSync (join_with ''/c$/proj'' ?pieces)])"
    by blast
  then have 1: "findExecutableByConfig ?fs ?ctx ''cairo1.scarbPath'' ?cb
       = (Inr (Some ''/c$/proj/x/c$/proj/ls''), [ExistsSync ''/c$/proj/x/c$/proj/ls''])"
    by (simp add: existsSync_def fs_with_def)
  from placeholder_is_replaced_by_the_root_path [OF root' free' cfg' ne, where fs = ?fs and cb = ?cb]
    pieces
  have "findExecutableByConfig ?fs ?ctx' ''cairo1.scarbPath'' ?cb
               = (Inr (if existsSync ?fs (join_with ''/ext'' ?pieces)
                       then Some (join_with ''/ext'' ?pieces) else None),
                  [ExistsSync (join_with ''/ext'' ?pieces)])"
    by blast
  then have 2: "findExecutableByConfig ?fs ?ctx' ''cairo1.scarbPath'' ?cb
       = (Inr None, [ExistsSync ''/ext/x/ext/ls''])"
    by (simp add: existsSync_def fs_with_def)
  from pieces have 3: "?cfg = join_with workspaceFolder_placeholder ?pieces" by blast
  from root root' free free' dollar 1 2 3 show ?thesis by blast
qed

theorem first_folder_with_empty_path_counterexample:
  "findExecutableByConfig (fs_with [''/ext/bin/ls''] [])
     \<lparr>extensionPath = ''/ext'', workspaceFolders = Some [''''],
        configuration = (\<lambda>k. Some ''${workspaceFolder}/bin/ls'')\<rparr>
     ''cairo1.languageServerPath'' (\<lambda>r. (None, []))
   = (Inr (Some ''/ext/bin/ls''), [ExistsSync ''/ext/bin/ls''])"
  by (simp add: findExecutableByConfig_def rootPath_def replace_all_def
      workspaceFolder_placeholder_def existsSync_def fs_with_def Let_def)

subsection \<open>The bootstrap of the language server\<close>

text \<open>
  C6. When the search for the language server returns nothing (undefined, or a falsy
  path), the server options append the explanatory line to the output channel and stop:
  no child process is spawned, nothing else changes, nothing is thrown, and the promise
  of the server process is left pending.
\<close>

theorem serverOptions_not_found_logs_and_spawns_nothing:
  assumes "fst (findLanguageServerExecutable fs ctx) = Inr executable"
    and "\<not> truthy executable"
  shows "serverOptions fs ctx st
           = (Pending, st\<lparr>outputChannel := outputChannel st @ [not_found_message]\<rparr>)
         \<and> outputChannel (snd (serverOptions fs ctx st)) = outputChannel st @ [not_found_message]
         \<and> spawned (snd (serverOptions fs ctx st)) = spawned st
         \<and> fst (serverOptions fs ctx st) \<noteq> Rejected e
         \<and> fst (serverOptions fs ctx st) \<noteq> Fulfilled child"
  using assms
  by (auto simp: serverOptions_def truthy_def split: option.splits)

theorem serverOptions_not_found_logs_and_spawns_nothing_witness:
  "fst (findLanguageServerExecutable (fs_with [] [])
          \<lparr>extensionPath = ''/ext'', workspaceFolders = None,
             configuration = (\<lambda>k. if k = ''cairo1.languageServerPath'' then Some ''/nowhere/ls'' else None)\<rparr>)
     = Inr None
   \<and> \<not> truthy None
   \<and> serverOptions (fs_with [] [])
          \<lparr>extensionPath = ''/ext'', workspaceFolders = None,
             configuration = (\<lambda>k. if k = ''cairo1.languageServerPath'' then Some ''/nowhere/ls'' else None)\<rparr>
          \<lparr>outputChannel = [''Using Scarb binary from: /bin/scarb''], spawned = []\<rparr>
     = (Pending,
        \<lparr>outputChannel = [''Using Scarb binary from: /bin/scarb'', not_found_message], spawned = []\<rparr>)"
proof -
  let ?ctx = "\<lparr>extensionPath = ''/ext'', workspaceFolders = None,
             configuration = (\<lambda>k. if k = ''cairo1.languageServerPath'' then Some ''/nowhere/ls'' else None)\<rparr>"
  let ?st = "\<lparr>outputChannel = [''Using Scarb binary from: /bin/scarb''], spawned = []\<rparr>"
  have found: "fst (findLanguageServerExecutable (fs_with [] []) ?ctx) = Inr None"
    by (simp add: findLanguageServerExecutable_def findExecutableByConfig_def rootPath_def
        replace_all_def workspaceFolder_placeholder_def existsSync_def fs_with_def Let_def)
  have falsy: "\<not> truthy None" by (simp add: truthy_def)
  from serverOptions_not_found_logs_and_spawns_nothing [OF found falsy, of ?st]
  have "serverOptions (fs_with [] []) ?ctx ?st
          = (Pending, ?st\<lparr>outputChannel := outputChannel ?st @ [not_found_message]\<rparr>)"
    by blast
  with found falsy show ?thesis by simp
qed

subsection \<open>The virtual file system provider\<close>

text \<open>
  C8. A fetch of the content of a URI sends one \<^verbatim>\<open>vfs/provide\<close> request carrying that URI
  and returns what the server answers to it, the content as it is or the failure of the
  request. Nothing is kept: a second fetch sends a second request and returns the
  answer to that one. A \<^verbatim>\<open>vfs/update\<close> notification for a URI fires the change event for
  that URI and no other, and sends nothing.
\<close>

theorem provideTextDocumentContent_asks_the_server_each_time:
  "requests (snd (provideTextDocumentContent server uri cs))
     = requests cs @ [(''vfs/provide'', uri)]
   \<and> changeEvents (snd (provideTextDocumentContent server uri cs)) = changeEvents cs
   \<and> (\<forall>content. server (requests cs) uri = Inr content \<longrightarrow>
         fst (provideTextDocumentContent server uri cs) = Fulfilled content)
   \<and> (\<forall>e. server (requests cs) uri = Inl e \<longrightarrow>
         fst (provideTextDocumentContent server uri cs) = Rejected e)
   \<and> requests (snd (provideTextDocumentContent server uri
                      (snd (provideTextDocumentContent server uri cs))))
       = requests cs @ [(''vfs/provide'', uri), (''vfs/provide'', uri)]
   \<and> (\<forall>content. server (requests cs @ [(''vfs/provide'', uri)]) uri = Inr content \<longrightarrow>
         fst (provideTextDocumentContent server uri
                (snd (provideTextDocumentContent server uri cs))) = Fulfilled content)
   \<and> changeEvents (onNotification ''vfs/update'' uri cs) = changeEvents cs @ [uri]
   \<and> requests (onNotification ''vfs/update'' uri cs) = requests cs
   \<and> requests (snd (provideTextDocumentContent server uri (onNotification ''vfs/update'' uri cs)))
       = requests cs @ [(''vfs/provide'', uri)]"
  by (simp add: provideTextDocumentContent_def sendRequest_def onNotification_def)

theorem provideTextDocumentContent_asks_the_server_each_time_witness:
  "fst (provideTextDocumentContent
          (\<lambda>asked uri. if asked = [] then Inr ''fn main() {}'' else Inr ''fn main() { 1 }'')
          ''vfs://x/y.cairo'' \<lparr>requests = [], changeEvents = []\<rparr>)
     = Fulfilled ''fn main() {}''
   \<and> fst (provideTextDocumentContent
          (\<lambda>asked uri. if asked = [] then Inr ''fn main() {}'' else Inr ''fn main() { 1 }'')
          ''vfs://x/y.cairo''
          (snd (provideTextDocumentContent
             (\<lambda>asked uri. if asked = [] then Inr ''fn main() {}'' else Inr ''fn main() { 1 }'')
             ''vfs://x/y.cairo'' \<lparr>requests = [], changeEvents = []\<rparr>)))
     = Fulfilled ''fn main() { 1 }''
   \<and> fst (provideTextDocumentContent (\<lambda>asked uri. Inl (ResponseError ''no such file''))
          ''vfs://x/y.cairo'' \<lparr>requests = [], changeEvents = []\<rparr>)
     = Rejected (ResponseError ''no such file'')"
proof -
  let ?server = "\<lambda>(asked :: (string \<times> string) list) (uri :: string).
      if asked = [] then Inr ''fn main() {}'' else (Inr ''fn main() { 1 }'' :: js_error + string)"
  let ?broken = "\<lambda>(asked :: (string \<times> string) list) (uri :: string).
      (Inl (ResponseError ''no such file'') :: js_error + string)"
  let ?cs = "\<lparr>requests = [], changeEvents = []\<rparr>"
  let ?uri = "''vfs://x/y.cairo''"
  note a = provideTextDocumentContent_asks_the_server_each_time [of ?server ?uri ?cs]
  note b = provideTextDocumentContent_asks_the_server_each_time [of ?broken ?uri ?cs]
  have "?server (requests ?cs) ?uri = Inr ''fn main() {}''" by simp
  with a have 1: "fst (provideTextDocumentContent ?server ?uri ?cs) = Fulfilled ''fn main() {}''"
    by blast
  have "?server (requests ?cs @ [(''vfs/provide'', ?uri)]) ?uri = Inr ''fn main() { 1 }''" by simp
  with a have 2: "fst (provideTextDocumentContent ?server ?uri
                (snd (provideTextDocumentContent ?server ?uri ?cs))) = Fulfilled ''fn main() { 1 }''"
    by blast
  have "?broken (requests ?cs) ?uri = Inl (ResponseError ''no such file'')" by simp
  with b have 3: "fst (provideTextDocumentContent ?broken ?uri ?cs)
                    = Rejected (ResponseError ''no such file'')"
    by blast
  from 1 2 3 show ?thesis by blast
qed

end
